theory Spec2Isabelle
  imports Main "HOL-Library.Word"
begin

text \<open>
  The streaming client of the chat application: \<^verbatim>\<open>sendMessageStream\<close> of chatService.ts,
  which reads a stream of newline-delimited JSON frames and reports them through three
  callbacks, and \<^verbatim>\<open>sendMessage\<close> of ChatPage.tsx, which keeps the message list of the page.
  A call of \<^verbatim>\<open>sendMessageStream\<close> is modelled by the trace of what it does, as a function
  of what \<^verbatim>\<open>fetch\<close> and the reader give it; every promise is taken to settle.
\<close>

section \<open>JavaScript strings\<close>

text \<open>
  A JavaScript string is a sequence of 16-bit code units. ASCII literals of the source
  are written with \<open>js\<close>; the Chinese literals are given by their code units.
\<close>

type_synonym code_unit = "16 word"
type_synonym js_string = "code_unit list"

definition js :: "string \<Rightarrow> js_string" where
  "js s = map of_char s"

text \<open>
  \<^verbatim>\<open>String.prototype.split('\n')\<close>: the pieces between line feeds; a string without a line
  feed is one piece, the empty string gives one empty piece.
\<close>

fun split_newline :: "js_string \<Rightarrow> js_string list" where
  "split_newline [] = [[]]"
| "split_newline (c # cs) =
     (if c = 0x0A then [] # split_newline cs
      else (case split_newline cs of [] \<Rightarrow> [[c]] | l # ls \<Rightarrow> (c # l) # ls))"

text \<open>
  \<^verbatim>\<open>String.prototype.trim\<close> strips ECMAScript WhiteSpace and LineTerminator code units
  from both ends.
\<close>

definition is_js_space :: "code_unit \<Rightarrow> bool" where
  "is_js_space c \<longleftrightarrow>
     c = 0x0009 \<or> c = 0x000A \<or> c = 0x000B \<or> c = 0x000C \<or> c = 0x000D \<or> c = 0x0020 \<or>
     c = 0x00A0 \<or> c = 0x1680 \<or> (0x2000 \<le> c \<and> c \<le> 0x200A) \<or> c = 0x2028 \<or>
     c = 0x2029 \<or> c = 0x202F \<or> c = 0x205F \<or> c = 0x3000 \<or> c = 0xFEFF"

definition trim :: "js_string \<Rightarrow> js_string" where
  "trim s = rev (dropWhile is_js_space (rev (dropWhile is_js_space s)))"

text \<open>Template-literal printing of a non-negative integer (the HTTP status).\<close>

definition digit_unit :: "nat \<Rightarrow> code_unit" where
  "digit_unit d = 0x30 + of_nat d"

function decimal :: "nat \<Rightarrow> js_string" where
  "decimal n = (if n < 10 then [digit_unit n] else decimal (n div 10) @ [digit_unit (n mod 10)])"
  by pat_completeness auto
termination
  by (relation "measure id") auto

declare decimal.simps [simp del]

section \<open>JSON values and \<^verbatim>\<open>JSON.parse\<close>\<close>

text \<open>
  The values \<^verbatim>\<open>JSON.parse\<close> can return, and \<^verbatim>\<open>undefined\<close> for a property that is absent.
  A number keeps its lexeme: the value of a double and its printing are floating point
  and no statement below depends on them. An object keeps its members in source order.
\<close>

datatype jsval =
    Undefined
  | JNull
  | JBool bool
  | JNum js_string
  | JStr js_string
  | JArr "jsval list"
  | JObj "(js_string \<times> jsval) list"

datatype token =
    TLBrace | TRBrace | TLBrack | TRBrack | TColon | TComma
  | TStr js_string | TNum js_string | TTrue | TFalse | TNull

datatype num_state =
  NMinus | NZero | NInt | NDot | NFrac | NExp | NExpSign | NExpDigits

datatype lex_state =
    LTop
  | LString js_string
  | LEscape js_string
  | LUnicode js_string nat code_unit
  | LNumber js_string num_state
  | LLiteral js_string token

definition is_digit :: "code_unit \<Rightarrow> bool" where
  "is_digit c \<longleftrightarrow> 0x30 \<le> c \<and> c \<le> 0x39"

definition hex_digit :: "code_unit \<Rightarrow> code_unit option" where
  "hex_digit c =
     (if 0x30 \<le> c \<and> c \<le> 0x39 then Some (c - 0x30)
      else if 0x41 \<le> c \<and> c \<le> 0x46 then Some (c - 0x41 + 10)
      else if 0x61 \<le> c \<and> c \<le> 0x66 then Some (c - 0x61 + 10)
      else None)"

text \<open>The JSON number grammar \<^verbatim>\<open>-?(0|[1-9][0-9]*)(\.[0-9]+)?([eE][+-]?[0-9]+)?\<close> as an automaton.\<close>

fun num_step :: "num_state \<Rightarrow> code_unit \<Rightarrow> num_state option" where
  "num_step NMinus c =
     (if c = 0x30 then Some NZero else if is_digit c then Some NInt else None)"
| "num_step NZero c =
     (if c = 0x2E then Some NDot else if c = 0x65 \<or> c = 0x45 then Some NExp else None)"
| "num_step NInt c =
     (if is_digit c then Some NInt else if c = 0x2E then Some NDot
      else if c = 0x65 \<or> c = 0x45 then Some NExp else None)"
| "num_step NDot c = (if is_digit c then Some NFrac else None)"
| "num_step NFrac c =
     (if is_digit c then Some NFrac else if c = 0x65 \<or> c = 0x45 then Some NExp else None)"
| "num_step NExp c =
     (if c = 0x2B \<or> c = 0x2D then Some NExpSign
      else if is_digit c then Some NExpDigits else None)"
| "num_step NExpSign c = (if is_digit c then Some NExpDigits else None)"
| "num_step NExpDigits c = (if is_digit c then Some NExpDigits else None)"

fun num_final :: "num_state \<Rightarrow> bool" where
  "num_final NZero = True"
| "num_final NInt = True"
| "num_final NFrac = True"
| "num_final NExpDigits = True"
| "num_final _ = False"

text \<open>A code unit met between tokens: JSON white space, punctuation, or the start of a token.\<close>

definition lex_top :: "code_unit \<Rightarrow> (lex_state \<times> token list) option" where
  "lex_top c =
     (if c = 0x20 \<or> c = 0x09 \<or> c = 0x0A \<or> c = 0x0D then Some (LTop, [])
      else if c = 0x7B then Some (LTop, [TLBrace])
      else if c = 0x7D then Some (LTop, [TRBrace])
      else if c = 0x5B then Some (LTop, [TLBrack])
      else if c = 0x5D then Some (LTop, [TRBrack])
      else if c = 0x3A then Some (LTop, [TColon])
      else if c = 0x2C then Some (LTop, [TComma])
      else if c = 0x22 then Some (LString [], [])
      else if c = 0x2D then Some (LNumber [c] NMinus, [])
      else if c = 0x30 then Some (LNumber [c] NZero, [])
      else if is_digit c then Some (LNumber [c] NInt, [])
      else if c = 0x74 then Some (LLiteral (js ''rue'') TTrue, [])
      else if c = 0x66 then Some (LLiteral (js ''alse'') TFalse, [])
      else if c = 0x6E then Some (LLiteral (js ''ull'') TNull, [])
      else None)"

text \<open>
  One code unit in a given lexer state; the accumulators of a string and of a number
  are reversed. A raw control character inside a string is a syntax error.
\<close>

fun lex_step :: "lex_state \<Rightarrow> code_unit \<Rightarrow> (lex_state \<times> token list) option" where
  "lex_step LTop c = lex_top c"
| "lex_step (LString acc) c =
     (if c = 0x22 then Some (LTop, [TStr (rev acc)])
      else if c = 0x5C then Some (LEscape acc, [])
      else if c < 0x20 then None
      else Some (LString (c # acc), []))"
| "lex_step (LEscape acc) c =
     (if c = 0x22 \<or> c = 0x5C \<or> c = 0x2F then Some (LString (c # acc), [])
      else if c = 0x62 then Some (LString (0x08 # acc), [])
      else if c = 0x66 then Some (LString (0x0C # acc), [])
      else if c = 0x6E then Some (LString (0x0A # acc), [])
      else if c = 0x72 then Some (LString (0x0D # acc), [])
      else if c = 0x74 then Some (LString (0x09 # acc), [])
      else if c = 0x75 then Some (LUnicode acc 0 0, [])
      else None)"
| "lex_step (LUnicode acc n v) c =
     (case hex_digit c of
        None \<Rightarrow> None
      | Some d \<Rightarrow>
          (if n = 3 then Some (LString ((v * 16 + d) # acc), [])
           else Some (LUnicode acc (Suc n) (v * 16 + d), [])))"
| "lex_step (LNumber lexeme st) c =
     (case num_step st c of
        Some st' \<Rightarrow> Some (LNumber (c # lexeme) st', [])
      | None \<Rightarrow>
          (if num_final st
           then (case lex_top c of
                   None \<Rightarrow> None
                 | Some (s, ts) \<Rightarrow> Some (s, TNum (rev lexeme) # ts))
           else None))"
| "lex_step (LLiteral [] tok) c = None"
| "lex_step (LLiteral (e # rest) tok) c =
     (if c \<noteq> e then None
      else if rest = [] then Some (LTop, [tok])
      else Some (LLiteral rest tok, []))"

fun lex_end :: "lex_state \<Rightarrow> token list option" where
  "lex_end LTop = Some []"
| "lex_end (LNumber lexeme st) = (if num_final st then Some [TNum (rev lexeme)] else None)"
| "lex_end _ = None"

fun lex :: "lex_state \<Rightarrow> js_string \<Rightarrow> token list option" where
  "lex st [] = lex_end st"
| "lex st (c # cs) =
     (case lex_step st c of
        None \<Rightarrow> None
      | Some (st', ts) \<Rightarrow> (case lex st' cs of None \<Rightarrow> None | Some ts' \<Rightarrow> Some (ts @ ts')))"

text \<open>
  The grammar over tokens, as a pushdown automaton: the stack holds the arrays and
  objects that are open, each with what it has collected so far (reversed).
\<close>

datatype ctx =
    InArr "jsval list"
  | InObj "(js_string \<times> jsval) list" js_string

datatype mode =
    Value
  | ArrStart
  | ObjStart
  | Key "(js_string \<times> jsval) list"
  | Colon "(js_string \<times> jsval) list" js_string
  | After jsval

fun value_token :: "ctx list \<Rightarrow> token \<Rightarrow> (mode \<times> ctx list) option" where
  "value_token st (TStr s) = Some (After (JStr s), st)"
| "value_token st (TNum n) = Some (After (JNum n), st)"
| "value_token st TTrue = Some (After (JBool True), st)"
| "value_token st TFalse = Some (After (JBool False), st)"
| "value_token st TNull = Some (After JNull, st)"
| "value_token st TLBrack = Some (ArrStart, st)"
| "value_token st TLBrace = Some (ObjStart, st)"
| "value_token st _ = None"

fun parse_step :: "mode \<times> ctx list \<Rightarrow> token \<Rightarrow> (mode \<times> ctx list) option" where
  "parse_step (Value, st) t = value_token st t"
| "parse_step (ArrStart, st) t =
     (if t = TRBrack then Some (After (JArr []), st) else value_token (InArr [] # st) t)"
| "parse_step (ObjStart, st) t =
     (case t of
        TRBrace \<Rightarrow> Some (After (JObj []), st)
      | TStr k \<Rightarrow> Some (Colon [] k, st)
      | _ \<Rightarrow> None)"
| "parse_step (Key acc, st) t = (case t of TStr k \<Rightarrow> Some (Colon acc k, st) | _ \<Rightarrow> None)"
| "parse_step (Colon acc k, st) t =
     (case t of TColon \<Rightarrow> Some (Value, InObj acc k # st) | _ \<Rightarrow> None)"
| "parse_step (After v, []) t = None"
| "parse_step (After v, InArr acc # st) t =
     (case t of
        TComma \<Rightarrow> Some (Value, InArr (v # acc) # st)
      | TRBrack \<Rightarrow> Some (After (JArr (rev (v # acc))), st)
      | _ \<Rightarrow> None)"
| "parse_step (After v, InObj acc k # st) t =
     (case t of
        TComma \<Rightarrow> Some (Key ((k, v) # acc), st)
      | TRBrace \<Rightarrow> Some (After (JObj (rev ((k, v) # acc))), st)
      | _ \<Rightarrow> None)"

fun parse_tokens :: "mode \<times> ctx list \<Rightarrow> token list \<Rightarrow> jsval option" where
  "parse_tokens (After v, []) [] = Some v"
| "parse_tokens s [] = None"
| "parse_tokens s (t # ts) =
     (case parse_step s t of None \<Rightarrow> None | Some s' \<Rightarrow> parse_tokens s' ts)"

text \<open>\<^verbatim>\<open>JSON.parse(line)\<close>: \<open>None\<close> is the SyntaxError it throws.\<close>

definition JSON_parse :: "js_string \<Rightarrow> jsval option" where
  "JSON_parse s = (case lex LTop s of None \<Rightarrow> None | Some ts \<Rightarrow> parse_tokens (Value, []) ts)"

section \<open>Property access and string conversion\<close>

text \<open>
  \<^verbatim>\<open>data.type\<close>, \<^verbatim>\<open>data.content\<close> and \<^verbatim>\<open>data.error\<close> on a value that is neither \<^verbatim>\<open>null\<close>
  nor \<^verbatim>\<open>undefined\<close>: an object gives its member of that name (the last one when the
  name occurs twice in the source text), every other value gives \<^verbatim>\<open>undefined\<close>, since no
  prototype has a property of one of these three names. On \<^verbatim>\<open>null\<close> the access throws.
\<close>

fun get_prop :: "jsval \<Rightarrow> js_string \<Rightarrow> jsval" where
  "get_prop (JObj ms) k = (case map_of (rev ms) k of None \<Rightarrow> Undefined | Some v \<Rightarrow> v)"
| "get_prop _ k = Undefined"

fun join_comma :: "js_string list \<Rightarrow> js_string" where
  "join_comma [] = []"
| "join_comma [s] = s"
| "join_comma (s # t # ts) = s @ 0x2C # join_comma (t # ts)"

subsection \<open>The Number value of a lexeme and its printing\<close>

text \<open>
  \<^verbatim>\<open>JSON.parse\<close> turns the lexeme of a number into the nearest double (ties to even, too
  large a value to an infinity, too small a one to zero), and the conversion of a number
  to a string prints the shortest decimal that reads back as the same double. Both are
  computed here in exact integer arithmetic: a value is a fraction of two integers, a
  finite double is \<open>q \<times> 2\<^sup>b\<close> with \<open>2\<^sup>5\<^sup>2 \<le> q < 2\<^sup>5\<^sup>3\<close>, or with \<open>q < 2\<^sup>5\<^sup>2\<close> and \<open>b = -1074\<close>.
\<close>

definition digits_value :: "js_string \<Rightarrow> int" where
  "digits_value ds = foldl (\<lambda>a c. 10 * a + uint (c - 0x30)) 0 ds"

text \<open>The sign, the digits read as one integer, and the power of ten to scale them by.\<close>

definition lexeme_parts :: "js_string \<Rightarrow> bool \<times> int \<times> int" where
  "lexeme_parts lexeme =
     (let negative = (take 1 lexeme = [0x2D]);
          body = (if negative then drop 1 lexeme else lexeme);
          mantissa = takeWhile (\<lambda>c. c \<noteq> 0x65 \<and> c \<noteq> 0x45) body;
          exponent = drop (length mantissa + 1) body;
          whole = takeWhile is_digit mantissa;
          fraction = drop (length whole + 1) mantissa;
          e = (case exponent of
                 [] \<Rightarrow> 0
               | c # ds \<Rightarrow>
                   (if c = 0x2D then - digits_value ds
                    else if c = 0x2B then digits_value ds
                    else digits_value (c # ds)))
      in (negative, digits_value (whole @ fraction), e - int (length fraction)))"

text \<open>\<open>m \<times> base\<^sup>e\<close> as a fraction.\<close>

definition scaled :: "int \<Rightarrow> int \<Rightarrow> int \<Rightarrow> int \<times> int" where
  "scaled m base e = (if 0 \<le> e then (m * base ^ nat e, 1) else (m, base ^ nat (- e)))"

text \<open>The number of digits of a positive integer in a base.\<close>

function width :: "int \<Rightarrow> int \<Rightarrow> int" where
  "width base n = (if n \<le> 0 \<or> base < 2 then 0 else width base (n div base) + 1)"
  by pat_completeness auto
termination
proof (relation "measure (\<lambda>(base, n). nat n)")
  show "wf (measure (\<lambda>(base, n). nat n))" by simp
next
  fix base n :: int
  assume "\<not> (n \<le> 0 \<or> base < 2)"
  then have "0 < n" "2 \<le> base" by simp_all
  then have "n div base < n" by (simp add: int_div_less_self)
  moreover have "0 \<le> n div base"
    using \<open>0 < n\<close> \<open>2 \<le> base\<close> by (simp add: pos_imp_zdiv_nonneg_iff)
  ultimately show "((base, n div base), (base, n)) \<in> measure (\<lambda>(base, n). nat n)"
    using \<open>0 < n\<close> by simp
qed

declare width.simps [simp del]

text \<open>The exponent \<open>d\<close> with \<open>base\<^sup>d \<le> num / den < base\<^sup>d\<^sup>+\<^sup>1\<close>, for a positive fraction.\<close>

definition magnitude :: "int \<Rightarrow> int \<Rightarrow> int \<Rightarrow> int" where
  "magnitude base num den =
     (let d = width base num - width base den;
          (n, m) = scaled 1 base d
      in if den * n \<le> num * m then d else d - 1)"

datatype double = Zero | Infinite | Finite int int

definition round_to_double :: "int \<times> int \<Rightarrow> double" where
  "round_to_double v =
     (case v of (num, den) \<Rightarrow>
        if num = 0 then Zero
        else
          (let b = max (magnitude 2 num den - 52) (- 1074);
               (p, r) = scaled 1 2 (- b);
               n = num * p; d = den * r;
               fl = n div d;
               q = (if d < 2 * (n mod d) \<or> (2 * (n mod d) = d \<and> odd fl) then fl + 1 else fl)
           in if q = 0 then Zero
              else if q = 2 ^ 53 then (if 971 < b + 1 then Infinite else Finite (2 ^ 52) (b + 1))
              else if 971 < b then Infinite
              else Finite q b))"

definition Number_value :: "js_string \<Rightarrow> bool \<times> double" where
  "Number_value lexeme =
     (case lexeme_parts lexeme of
        (negative, m, e) \<Rightarrow> (negative, round_to_double (scaled m 10 e)))"

text \<open>
  The digits \<open>s\<close> and the exponent \<open>n\<close> of the printing, for \<open>k\<close> digits: the two \<open>k\<close>-digit
  decimals next to the double are tried, and of those that read back as the double the
  nearer one is taken (the even one when they are equally near).
\<close>

definition shortest_at :: "int \<Rightarrow> int \<Rightarrow> int \<Rightarrow> int \<Rightarrow> (int \<times> int) option" where
  "shortest_at q b n k =
     (let (xn, xd) = scaled q 2 b;
          (p, r) = scaled 1 10 (k - n);
          yn = xn * p; yd = xd * r;
          lo = yn div yd;
          hi = (if yn mod yd = 0 then lo else lo + 1);
          ok_lo = (round_to_double (scaled lo 10 (n - k)) = Finite q b);
          ok_hi = (round_to_double (scaled hi 10 (n - k)) = Finite q b);
          pick = (if ok_lo \<and> ok_hi
                  then (if 2 * yn < (lo + hi) * yd then Some lo
                        else if (lo + hi) * yd < 2 * yn then Some hi
                        else if even lo then Some lo else Some hi)
                  else if ok_lo then Some lo
                  else if ok_hi then Some hi
                  else None)
      in (case pick of
            None \<Rightarrow> None
          | Some s \<Rightarrow> if s = 10 ^ nat k then Some (10 ^ nat (k - 1), n + 1) else Some (s, n)))"

text \<open>The least number of digits that works; seventeen digits always do.\<close>

fun shortest :: "int \<Rightarrow> int \<Rightarrow> int \<Rightarrow> int \<Rightarrow> nat \<Rightarrow> int \<times> int" where
  "shortest q b n k 0 = (case shortest_at q b n k of Some r \<Rightarrow> r | None \<Rightarrow> (0, n))"
| "shortest q b n k (Suc more) =
     (case shortest_at q b n k of Some r \<Rightarrow> r | None \<Rightarrow> shortest q b n (k + 1) more)"

function digits :: "int \<Rightarrow> js_string" where
  "digits n =
     (if n < 10 then [0x30 + of_int n] else digits (n div 10) @ [0x30 + of_int (n mod 10)])"
  by pat_completeness auto
termination
  by (relation "measure nat") auto

declare digits.simps [simp del]

text \<open>The layout of the digits: plain, with a point, with leading zeros, or with an exponent.\<close>

definition format_digits :: "int \<Rightarrow> int \<Rightarrow> js_string" where
  "format_digits s n =
     (let ds = digits s; k = int (length ds) in
      if k \<le> n \<and> n \<le> 21 then ds @ replicate (nat (n - k)) 0x30
      else if 0 < n \<and> n \<le> 21 then take (nat n) ds @ 0x2E # drop (nat n) ds
      else if - 6 < n \<and> n \<le> 0 then js ''0.'' @ replicate (nat (- n)) 0x30 @ ds
      else
        (if k = 1 then ds else take 1 ds @ 0x2E # drop 1 ds)
          @ 0x65 # (if n - 1 < 0 then 0x2D else 0x2B) # digits \<bar>n - 1\<bar>)"

definition Number_toString :: "bool \<times> double \<Rightarrow> js_string" where
  "Number_toString v =
     (case v of
        (negative, Zero) \<Rightarrow> js ''0''
      | (negative, Infinite) \<Rightarrow> (if negative then js ''-Infinity'' else js ''Infinity'')
      | (negative, Finite q b) \<Rightarrow>
          (let (xn, xd) = scaled q 2 b;
               (s, n) = shortest q b (magnitude 10 xn xd + 1) 1 16
           in (if negative then [0x2D] else []) @ format_digits s n))"

definition number_text :: "js_string \<Rightarrow> js_string" where
  "number_text lexeme = Number_toString (Number_value lexeme)"

subsection \<open>The conversion to a string\<close>

text \<open>
  The conversion that \<^verbatim>\<open>+\<close> and \<^verbatim>\<open>+=\<close> apply to the right operand when the left one is
  a string; \<open>None\<close> is the TypeError it throws. An object made by \<^verbatim>\<open>JSON.parse\<close> has no
  callable property of its own, so an object with a member named \<^verbatim>\<open>toString\<close> cannot be
  converted (the inherited \<^verbatim>\<open>valueOf\<close> returns the object, the member is not callable);
  every other object prints as \<^verbatim>\<open>[object Object]\<close>. An array joins the conversions of its
  elements, \<^verbatim>\<open>null\<close> printing as nothing there, and throws when one of them throws.
\<close>

fun ToString :: "jsval \<Rightarrow> js_string option" where
  "ToString Undefined = Some (js ''undefined'')"
| "ToString JNull = Some (js ''null'')"
| "ToString (JBool b) = Some (if b then js ''true'' else js ''false'')"
| "ToString (JNum n) = Some (number_text n)"
| "ToString (JStr s) = Some s"
| "ToString (JArr vs) =
     map_option join_comma
       (those (map (\<lambda>v. if v = Undefined \<or> v = JNull then Some [] else ToString v) vs))"
| "ToString (JObj ms) =
     (if js ''toString'' \<in> fst ` set ms then None else Some (js ''[object Object]''))"

text \<open>What a value adds to a string it is appended to: nothing when the conversion throws.\<close>

definition delta_text :: "jsval \<Rightarrow> js_string" where
  "delta_text v = (case ToString v of None \<Rightarrow> [] | Some t \<Rightarrow> t)"

section \<open>chatService.ts: sendMessageStream\<close>

text \<open>
  What the platform gives to one call. \<^verbatim>\<open>fetch\<close> rejects with an error message, or
  resolves to a response with a status and a body; the body's reader yields the decoded
  text of each read (the decoder runs in streaming mode, so a read is the text it
  returns for it) and then reports the end of the stream, or a read rejects.
\<close>

datatype read_end = EndOfStream | ReadError js_string

datatype response =
    FetchRejected js_string
  | Response nat "(js_string list \<times> read_end) option"

text \<open>
  What the call does that can be observed, in order: the three callbacks, the two
  console calls and the release of the reader. The callbacks are taken not to throw.
\<close>

datatype event =
    OnChunk jsval
  | OnComplete js_string
  | OnError jsval
  | ConsoleWarn
  | ConsoleError
  | ReleaseLock

text \<open>
  The body of the \<^verbatim>\<open>for\<close> loop for one line, with the current \<^verbatim>\<open>fullContent\<close>: the
  events, and the new \<^verbatim>\<open>fullContent\<close> when the loop goes on, \<open>None\<close> when the function
  returns. The inner \<^verbatim>\<open>catch\<close> logs a warning for whatever is thrown in its \<^verbatim>\<open>try\<close>: by
  \<^verbatim>\<open>JSON.parse\<close>, by \<^verbatim>\<open>data.type\<close> on \<^verbatim>\<open>null\<close>, or by \<^verbatim>\<open>fullContent += data.content\<close>
  after \<^verbatim>\<open>onChunk\<close> has run.
\<close>

definition process_line :: "js_string \<Rightarrow> js_string \<Rightarrow> event list \<times> js_string option" where
  "process_line fullContent line =
     (if trim line = [] then ([], Some fullContent)
      else
        (case JSON_parse line of
           None \<Rightarrow> ([ConsoleWarn], Some fullContent)
         | Some data \<Rightarrow>
             (if data = JNull \<or> data = Undefined then ([ConsoleWarn], Some fullContent)
              else if get_prop data (js ''type'') = JStr (js ''content'')
                then
                  (case ToString (get_prop data (js ''content'')) of
                     None \<Rightarrow>
                       ([OnChunk (get_prop data (js ''content'')), ConsoleWarn], Some fullContent)
                   | Some t \<Rightarrow>
                       ([OnChunk (get_prop data (js ''content''))], Some (fullContent @ t)))
              else if get_prop data (js ''type'') = JStr (js ''done'')
                then ([OnComplete fullContent], None)
              else if get_prop data (js ''type'') = JStr (js ''error'')
                then ([OnError (get_prop data (js ''error''))], None)
              else ([], Some fullContent))))"

fun process_lines :: "js_string \<Rightarrow> js_string list \<Rightarrow> event list \<times> js_string option" where
  "process_lines fullContent [] = ([], Some fullContent)"
| "process_lines fullContent (line # lines) =
     (case process_line fullContent line of
        (evs, None) \<Rightarrow> (evs, None)
      | (evs, Some fullContent') \<Rightarrow>
          (case process_lines fullContent' lines of (evs', r) \<Rightarrow> (evs @ evs', r)))"

text \<open>
  The \<^verbatim>\<open>while (true)\<close> loop inside the inner \<^verbatim>\<open>try\<close>: it ends when the reader reports the
  end of the stream (\<^verbatim>\<open>break\<close>), when a line makes the function return, or when a
  read rejects; \<open>Some m\<close> is the message of the error thrown.
\<close>

fun read_loop :: "js_string \<Rightarrow> js_string list \<Rightarrow> read_end \<Rightarrow> event list \<times> js_string option" where
  "read_loop fullContent [] EndOfStream = ([], None)"
| "read_loop fullContent [] (ReadError m) = ([], Some m)"
| "read_loop fullContent (chunk # chunks) e =
     (case process_lines fullContent (split_newline chunk) of
        (evs, None) \<Rightarrow> (evs, None)
      | (evs, Some fullContent') \<Rightarrow>
          (case read_loop fullContent' chunks e of (evs', r) \<Rightarrow> (evs @ evs', r)))"

definition networkErrorText :: js_string where
  "networkErrorText =
     [0x7F51, 0x7EDC, 0x8BF7, 0x6C42, 0x5931, 0x8D25, 0xFF0C, 0x8BF7, 0x68C0, 0x67E5,
      0x7F51, 0x7EDC, 0x8FDE, 0x63A5]"

definition noReaderText :: js_string where
  "noReaderText = [0x65E0, 0x6CD5, 0x83B7, 0x53D6, 0x54CD, 0x5E94, 0x6D41]"

text \<open>The outer \<^verbatim>\<open>catch\<close>: log, then \<^verbatim>\<open>onError(error.message || '...')\<close>.\<close>

definition catch_outer :: "js_string \<Rightarrow> event list" where
  "catch_outer m = [ConsoleError, OnError (JStr (if m = [] then networkErrorText else m))]"

definition sendMessageStream :: "response \<Rightarrow> event list" where
  "sendMessageStream r =
     (case r of
        FetchRejected m \<Rightarrow> catch_outer m
      | Response status body \<Rightarrow>
          (if \<not> (200 \<le> status \<and> status \<le> 299)
           then catch_outer (js ''HTTP error! status: '' @ decimal status)
           else
             (case body of
                None \<Rightarrow> catch_outer noReaderText
              | Some (chunks, e) \<Rightarrow>
                  (case read_loop [] chunks e of
                     (evs, None) \<Rightarrow> evs @ [ReleaseLock]
                   | (evs, Some m) \<Rightarrow> evs @ ReleaseLock # catch_outer m))))"

text \<open>The trace seen through the callbacks alone.\<close>

fun is_callback :: "event \<Rightarrow> bool" where
  "is_callback (OnChunk v) = True"
| "is_callback (OnComplete s) = True"
| "is_callback (OnError e) = True"
| "is_callback _ = False"

fun is_terminal :: "event \<Rightarrow> bool" where
  "is_terminal (OnComplete s) = True"
| "is_terminal (OnError e) = True"
| "is_terminal _ = False"

definition callbacks :: "event list \<Rightarrow> event list" where
  "callbacks evs = filter is_callback evs"

fun chunks_of :: "event list \<Rightarrow> jsval list" where
  "chunks_of [] = []"
| "chunks_of (OnChunk v # evs) = v # chunks_of evs"
| "chunks_of (e # evs) = chunks_of evs"

text \<open>Auxiliary notions for stating and proving properties of a trace.\<close>

definition chunk_phase :: "event list \<Rightarrow> bool" where
  "chunk_phase evs \<longleftrightarrow> (\<forall>e \<in> set evs. \<not> is_terminal e)"

definition texts :: "event list \<Rightarrow> js_string" where
  "texts evs = concat (map delta_text (chunks_of evs))"

definition turn_shape :: "js_string \<Rightarrow> event list \<Rightarrow> bool" where
  "turn_shape fc evs \<longleftrightarrow>
     chunk_phase evs \<or>
     (\<exists>pre t. evs = pre @ [t] \<and> chunk_phase pre \<and>
        (t = OnComplete (fc @ texts pre) \<or> (\<exists>e. t = OnError e)))"

section \<open>ChatPage.tsx: sendMessage\<close>

datatype MessageType = User | Assistant | System

text \<open>
  A chat message as the page builds it. The fields \<^verbatim>\<open>id\<close> and \<^verbatim>\<open>type\<close> are \<open>msg_id\<close> and
  \<open>msg_type\<close> here; an optional flag that is absent is \<open>None\<close>; the optional \<^verbatim>\<open>metadata\<close>
  is never set or read by \<^verbatim>\<open>sendMessage\<close>.
\<close>

record ChatMessage =
  msg_id :: js_string
  content :: js_string
  msg_type :: MessageType
  timestamp :: nat
  sessionId :: js_string
  isError :: "bool option"
  isStreaming :: "bool option"

record ChatRequest =
  message :: js_string
  session_id :: js_string
  user_id :: js_string

text \<open>
  The state of the component that \<^verbatim>\<open>sendMessage\<close> reads and writes, and the error toasts
  it has shown (\<^verbatim>\<open>message.error\<close>).
\<close>

record page =
  messages :: "ChatMessage list"
  inputValue :: js_string
  isLoading :: bool
  currentSessionId :: js_string
  errorToasts :: "js_string list"

text \<open>What \<^verbatim>\<open>uuidv4()\<close> and \<^verbatim>\<open>new Date()\<close> return during one call.\<close>

record fresh =
  userMessageId :: js_string
  userTimestamp :: nat
  aiMessageId :: js_string
  aiTimestamp :: nat

definition errorReplyText :: js_string where
  "errorReplyText =
     [0x62B1, 0x6B49, 0xFF0C, 0x6211, 0x73B0, 0x5728, 0x65E0, 0x6CD5, 0x56DE, 0x590D,
      0x60A8, 0x7684, 0x6D88, 0x606F, 0xFF0C, 0x8BF7, 0x7A0D, 0x540E, 0x518D, 0x8BD5,
      0x3002]"

definition sendFailedText :: js_string where
  "sendFailedText =
     [0x53D1, 0x9001, 0x6D88, 0x606F, 0x5931, 0x8D25, 0xFF0C, 0x8BF7, 0x91CD, 0x8BD5]"

definition userMessage :: "fresh \<Rightarrow> page \<Rightarrow> ChatMessage" where
  "userMessage f st =
     \<lparr>msg_id = userMessageId f, content = trim (inputValue st), msg_type = User,
      timestamp = userTimestamp f, sessionId = currentSessionId st,
      isError = None, isStreaming = None\<rparr>"

definition aiMessage :: "fresh \<Rightarrow> page \<Rightarrow> ChatMessage" where
  "aiMessage f st =
     \<lparr>msg_id = aiMessageId f, content = [], msg_type = Assistant,
      timestamp = aiTimestamp f, sessionId = currentSessionId st,
      isError = None, isStreaming = Some True\<rparr>"

text \<open>
  The part of \<^verbatim>\<open>sendMessage\<close> before the request: the guard, the user message, the
  placeholder. \<open>None\<close> is the early \<^verbatim>\<open>return\<close>, which changes nothing and sends nothing.
\<close>

definition sendMessage_start :: "fresh \<Rightarrow> page \<Rightarrow> (page \<times> ChatRequest) option" where
  "sendMessage_start f st =
     (if trim (inputValue st) = [] \<or> isLoading st then None
      else Some
        (st\<lparr>messages := (messages st @ [userMessage f st]) @ [aiMessage f st],
            inputValue := [],
            isLoading := True\<rparr>,
         \<lparr>message = content (userMessage f st), session_id = currentSessionId st,
          user_id = js ''user_001''\<rparr>))"

text \<open>
  The three callbacks handed to \<^verbatim>\<open>sendMessageStream\<close>, for the placeholder's id. The
  updater of \<^verbatim>\<open>onChunk\<close> evaluates \<^verbatim>\<open>msg.content + chunk\<close> for each message with that id;
  when the conversion of the chunk throws there, the update fails while React renders,
  and since no component catches it the page is unmounted: that is \<open>None\<close>.
\<close>

definition onChunk :: "js_string \<Rightarrow> jsval \<Rightarrow> page \<Rightarrow> page option" where
  "onChunk aiId chunk st =
     (if ToString chunk = None \<and> (\<exists>msg \<in> set (messages st). msg_id msg = aiId) then None
      else Some
        (st\<lparr>messages :=
             map (\<lambda>msg. if msg_id msg = aiId
                         then msg\<lparr>content := content msg @ delta_text chunk\<rparr>
                         else msg)
               (messages st)\<rparr>))"

definition onComplete :: "js_string \<Rightarrow> js_string \<Rightarrow> page \<Rightarrow> page" where
  "onComplete aiId fullContent st =
     st\<lparr>messages :=
          map (\<lambda>msg. if msg_id msg = aiId
                      then msg\<lparr>content := fullContent, isStreaming := Some False\<rparr>
                      else msg)
            (messages st),
        isLoading := False\<rparr>"

definition onError :: "js_string \<Rightarrow> jsval \<Rightarrow> page \<Rightarrow> page" where
  "onError aiId error st =
     st\<lparr>errorToasts := errorToasts st @ [sendFailedText],
        messages :=
          map (\<lambda>msg. if msg_id msg = aiId
                      then msg\<lparr>content := errorReplyText, isStreaming := Some False\<rparr>
                      else msg)
            (messages st),
        isLoading := False\<rparr>"

text \<open>A callback acting on the page; on a page that is unmounted a state update does nothing.\<close>

fun deliver :: "js_string \<Rightarrow> page option \<Rightarrow> event \<Rightarrow> page option" where
  "deliver aiId None e = None"
| "deliver aiId (Some st) (OnChunk chunk) = onChunk aiId chunk st"
| "deliver aiId (Some st) (OnComplete fullContent) = Some (onComplete aiId fullContent st)"
| "deliver aiId (Some st) (OnError error) = Some (onError aiId error st)"
| "deliver aiId (Some st) e = Some st"

text \<open>
  The whole call, for the response the request gets: the callbacks act on the page in
  the order of the trace, and \<^verbatim>\<open>finally\<close> clears \<^verbatim>\<open>isLoading\<close>. \<^verbatim>\<open>sendMessageStream\<close>
  catches every error itself, so the \<^verbatim>\<open>catch\<close> of \<^verbatim>\<open>sendMessage\<close> is never entered.
\<close>

definition sendMessage ::
  "fresh \<Rightarrow> response \<Rightarrow> page \<Rightarrow> page option \<times> ChatRequest option" where
  "sendMessage f r st =
     (case sendMessage_start f st of
        None \<Rightarrow> (Some st, None)
      | Some (st1, req) \<Rightarrow>
          (map_option (\<lambda>st'. st'\<lparr>isLoading := False\<rparr>)
             (foldl (deliver (aiMessageId f)) (Some st1) (sendMessageStream r)),
           Some req))"

text \<open>
  The state of a page that has just been mounted for the session of its URL: the initial
  values of \<^verbatim>\<open>useState\<close>, and the session id set by \<^verbatim>\<open>initializeSession\<close>, before any
  history has been loaded into the list.
\<close>

definition mount :: "js_string \<Rightarrow> page" where
  "mount urlSessionId =
     \<lparr>messages = [], inputValue = [], isLoading = False, currentSessionId = urlSessionId,
      errorToasts = []\<rparr>"

section \<open>The provider registry behind ModelSelector.tsx\<close>

text \<open>
  \<^verbatim>\<open>handleSwitchModel\<close> posts the selected provider and model to the switch endpoint and
  reloads the list; the registry that serves the endpoint is not among the sources.
  A provider configuration has the fields of the \<^verbatim>\<open>ModelConfig\<close> interface.
\<close>

record ModelConfig =
  provider :: js_string
  model :: js_string
  api_base :: js_string
  is_configured :: bool
  is_current :: bool

datatype registry_error = UnknownProvider | UnsupportedModel

text \<open>
  Modelled from the spec: \<^verbatim>\<open>ProviderRegistry.switch(providerKey, modelId)\<close>, the backend
  operation behind \<^verbatim>\<open>modelAPI.switchModel\<close>. It validates that the key is a known,
  configured provider and that the model is in that provider's supported-model
  enumeration (\<open>supported\<close>); on success it clears the previous current flag and sets the
  new one; otherwise it fails with UnknownProvider or UnsupportedModel.
\<close>

definition switch ::
  "(js_string \<Rightarrow> js_string list) \<Rightarrow> ModelConfig list \<Rightarrow> js_string \<Rightarrow> js_string \<Rightarrow>
     registry_error + ModelConfig list" where
  "switch supported reg providerKey modelId =
     (if \<not> (\<exists>c \<in> set reg. provider c = providerKey \<and> is_configured c) then Inl UnknownProvider
      else if modelId \<notin> set (supported providerKey) then Inl UnsupportedModel
      else Inr (map (\<lambda>c. if provider c = providerKey
                          then c\<lparr>model := modelId, is_current := True\<rparr>
                          else c\<lparr>is_current := False\<rparr>) reg))"

definition current_count :: "ModelConfig list \<Rightarrow> nat" where
  "current_count reg = length (filter is_current reg)"

text \<open>The registry after a sequence of switch requests; a request that fails leaves it as it is.\<close>

fun switch_all ::
  "(js_string \<Rightarrow> js_string list) \<Rightarrow> ModelConfig list \<Rightarrow> (js_string \<times> js_string) list \<Rightarrow>
     ModelConfig list" where
  "switch_all supported reg [] = reg"
| "switch_all supported reg ((providerKey, modelId) # calls) =
     switch_all supported
       (case switch supported reg providerKey modelId of Inl err \<Rightarrow> reg | Inr reg' \<Rightarrow> reg')
       calls"

section \<open>Example responses\<close>

text \<open>
  The scenario of the specification: the provider streams \<^verbatim>\<open>Hi\<close> and \<^verbatim>\<open> there\<close> and
  ends; the first read carries two lines, the second the terminal line.
\<close>

definition stream_hi_there :: response where
  \<open>stream_hi_there =
     Response 200 (Some
       ([js ''{"type":"content","content":"Hi"}\<newline>{"type":"content","content":" there"}\<newline>'',
         js ''{"type":"done"}\<newline>''],
        EndOfStream))\<close>

text \<open>The same stream when the connection closes before a terminal line is sent.\<close>

definition stream_cut_short :: response where
  \<open>stream_cut_short =
     Response 200 (Some ([js ''{"type":"content","content":"Hi"}\<newline>''], EndOfStream))\<close>

text \<open>One content line that arrives in two reads, then the terminal line.\<close>

definition stream_split_line :: response where
  \<open>stream_split_line =
     Response 200 (Some
       ([js ''{"type":"content","con'', js ''tent":"Hi"}\<newline>{"type":"done"}\<newline>''],
        EndOfStream))\<close>

text \<open>The same text in a single read.\<close>

definition stream_joined_line :: response where
  \<open>stream_joined_line =
     Response 200 (Some
       ([js ''{"type":"content","content":"Hi"}\<newline>{"type":"done"}\<newline>''], EndOfStream))\<close>

text \<open>A stream with a line that is not JSON and then the terminal line.\<close>

definition stream_garbage_then_done :: response where
  \<open>stream_garbage_then_done =
     Response 200 (Some ([js ''garbage\<newline>{"type":"done"}\<newline>''], EndOfStream))\<close>

text \<open>A content line whose content is an object with a member named \<^verbatim>\<open>toString\<close>.\<close>

definition stream_object_delta :: response where
  \<open>stream_object_delta =
     Response 200 (Some
       ([js ''{"type":"content","content":{"toString":"x"}}\<newline>{"type":"done"}\<newline>''],
        EndOfStream))\<close>


text \<open>
  A page just mounted for session \<^verbatim>\<open>s1\<close> with a text typed in, and the ids and times of two
  calls.
\<close>

definition idle_page :: "js_string \<Rightarrow> page" where
  "idle_page txt = (mount (js ''s1''))\<lparr>inputValue := txt\<rparr>"

definition fresh_ids :: fresh where
  "fresh_ids =
     \<lparr>userMessageId = js ''u1'', userTimestamp = 1, aiMessageId = js ''a1'', aiTimestamp = 2\<rparr>"

definition second_ids :: fresh where
  "second_ids =
     \<lparr>userMessageId = js ''u2'', userTimestamp = 3, aiMessageId = js ''a2'', aiTimestamp = 4\<rparr>"

text \<open>A registry of two configured providers, the first one current.\<close>

definition supported_models :: "js_string \<Rightarrow> js_string list" where
  "supported_models p =
     (if p = js ''openai'' then [js ''gpt-4'', js ''gpt-3.5-turbo'']
      else if p = js ''deepseek'' then [js ''deepseek-chat'']
      else [])"

definition two_providers :: "ModelConfig list" where
  "two_providers =
     [\<lparr>provider = js ''openai'', model = js ''gpt-4'', api_base = js ''https://api.openai.com/v1'',
       is_configured = True, is_current = True\<rparr>,
      \<lparr>provider = js ''deepseek'', model = js ''deepseek-chat'',
       api_base = js ''https://api.deepseek.com/v1'',
       is_configured = True, is_current = False\<rparr>]"

text \<open>The same registry after a switch to the second provider.\<close>

definition deepseek_current :: "ModelConfig list" where
  "deepseek_current =
     [\<lparr>provider = js ''openai'', model = js ''gpt-4'', api_base = js ''https://api.openai.com/v1'',
       is_configured = True, is_current = False\<rparr>,
      \<lparr>provider = js ''deepseek'', model = js ''deepseek-chat'',
       api_base = js ''https://api.deepseek.com/v1'',
       is_configured = True, is_current = True\<rparr>]"

text \<open>The page once \<^verbatim>\<open>hello\<close> has been sent from the idle page, and the request sent.\<close>

definition streaming_page :: page where
  "streaming_page =
     \<lparr>messages =
        [\<lparr>msg_id = js ''u1'', content = js ''hello'', msg_type = User, timestamp = 1,
          sessionId = js ''s1'', isError = None, isStreaming = None\<rparr>,
         \<lparr>msg_id = js ''a1'', content = [], msg_type = Assistant, timestamp = 2,
          sessionId = js ''s1'', isError = None, isStreaming = Some True\<rparr>],
      inputValue = [], isLoading = True, currentSessionId = js ''s1'', errorToasts = []\<rparr>"

definition hello_request :: ChatRequest where
  "hello_request = \<lparr>message = js ''hello'', session_id = js ''s1'', user_id = js ''user_001''\<rparr>"

section \<open>Properties of sendMessageStream\<close>

text \<open>The definitions that evaluate a call on a concrete input.\<close>

lemmas stream_eval =
  sendMessageStream_def js_def process_line_def JSON_parse_def lex_top_def is_digit_def
  trim_def is_js_space_def catch_outer_def

lemmas page_eval =
  sendMessage_start_def fresh_ids_def second_ids_def idle_page_def mount_def
  streaming_page_def hello_request_def userMessage_def aiMessage_def trim_def js_def
  is_js_space_def

lemmas registry_eval =
  switch_def current_count_def supported_models_def two_providers_def deepseek_current_def js_def

lemma chunks_of_append: "chunks_of (xs @ ys) = chunks_of xs @ chunks_of ys"
  by (induction xs rule: chunks_of.induct) auto

lemma texts_append: "texts (xs @ ys) = texts xs @ texts ys"
  by (simp add: texts_def chunks_of_append)

lemma chunk_phase_append: "chunk_phase (xs @ ys) \<longleftrightarrow> chunk_phase xs \<and> chunk_phase ys"
  by (auto simp: chunk_phase_def)

lemma callbacks_chunk_phase:
  "chunk_phase evs \<Longrightarrow> callbacks evs = map OnChunk (chunks_of evs)"
  unfolding chunk_phase_def callbacks_def
  by (induction evs rule: chunks_of.induct) auto

lemma terminals_chunk_phase:
  "chunk_phase evs \<Longrightarrow> filter is_terminal evs = []"
  unfolding chunk_phase_def by (induction evs) auto

lemma process_line_cont:
  "process_line fc l = (evs, Some fc') \<Longrightarrow> chunk_phase evs \<and> fc' = fc @ texts evs"
  by (auto simp: process_line_def chunk_phase_def texts_def delta_text_def
      split: if_splits option.splits)

lemma process_line_ret:
  "process_line fc l = (evs, None) \<Longrightarrow> evs = [OnComplete fc] \<or> (\<exists>e. evs = [OnError e])"
  by (auto simp: process_line_def split: if_splits option.splits)

lemma process_lines_cont:
  "process_lines fc ls = (evs, Some fc') \<Longrightarrow> chunk_phase evs \<and> fc' = fc @ texts evs"
proof (induction ls arbitrary: fc evs)
  case Nil
  then show ?case by (simp add: chunk_phase_def texts_def)
next
  case (Cons l ls)
  obtain e1 r1 where p1: "process_line fc l = (e1, r1)" by (cases "process_line fc l")
  with Cons.prems obtain fc1 where r1: "r1 = Some fc1" by (cases r1) auto
  obtain e2 r2 where p2: "process_lines fc1 ls = (e2, r2)" by (cases "process_lines fc1 ls")
  from Cons.prems p1 r1 p2 have evs: "evs = e1 @ e2" and r2: "r2 = Some fc'" by auto
  from process_line_cont p1 r1 have a: "chunk_phase e1" "fc1 = fc @ texts e1" by auto
  from Cons.IH p2 r2 have b: "chunk_phase e2" "fc' = fc1 @ texts e2" by auto
  from a b evs show ?case by (simp add: chunk_phase_append texts_append)
qed

lemma process_lines_ret:
  "process_lines fc ls = (evs, None) \<Longrightarrow>
     \<exists>pre t. evs = pre @ [t] \<and> chunk_phase pre \<and>
       (t = OnComplete (fc @ texts pre) \<or> (\<exists>e. t = OnError e))"
proof (induction ls arbitrary: fc evs)
  case Nil
  then show ?case by simp
next
  case (Cons l ls)
  obtain e1 r1 where p1: "process_line fc l = (e1, r1)" by (cases "process_line fc l")
  show ?case
  proof (cases r1)
    case None
    with Cons.prems p1 have "evs = e1" by simp
    with process_line_ret p1 None
    have "evs = [] @ [OnComplete (fc @ texts [])] \<or> (\<exists>e. evs = [] @ [OnError e])"
      by (auto simp: texts_def)
    moreover have "chunk_phase []" by (simp add: chunk_phase_def)
    ultimately show ?thesis by blast
  next
    case (Some fc1)
    obtain e2 r2 where p2: "process_lines fc1 ls = (e2, r2)" by (cases "process_lines fc1 ls")
    from Cons.prems p1 Some p2 have evs: "evs = e1 @ e2" and r2: "r2 = None" by auto
    from process_line_cont p1 Some have a: "chunk_phase e1" "fc1 = fc @ texts e1" by auto
    from Cons.IH p2 r2 obtain pre t where b: "e2 = pre @ [t]" "chunk_phase pre"
      "t = OnComplete (fc1 @ texts pre) \<or> (\<exists>e. t = OnError e)" by blast
    from a b evs have "evs = (e1 @ pre) @ [t]" "chunk_phase (e1 @ pre)"
      "t = OnComplete (fc @ texts (e1 @ pre)) \<or> (\<exists>e. t = OnError e)"
      by (auto simp: chunk_phase_append texts_append)
    then show ?thesis by blast
  qed
qed

lemma turn_shape_prepend:
  assumes "chunk_phase e1" and "turn_shape (fc @ texts e1) e2"
  shows "turn_shape fc (e1 @ e2)"
proof -
  from assms(2) consider "chunk_phase e2"
    | pre t where "e2 = pre @ [t]" "chunk_phase pre"
        "t = OnComplete ((fc @ texts e1) @ texts pre) \<or> (\<exists>e. t = OnError e)"
    unfolding turn_shape_def by blast
  then show ?thesis
  proof cases
    case 1
    with assms(1) show ?thesis by (simp add: turn_shape_def chunk_phase_append)
  next
    case 2
    with assms(1) have "e1 @ e2 = (e1 @ pre) @ [t]" "chunk_phase (e1 @ pre)"
      "t = OnComplete (fc @ texts (e1 @ pre)) \<or> (\<exists>e. t = OnError e)"
      by (auto simp: chunk_phase_append texts_append)
    then show ?thesis unfolding turn_shape_def by blast
  qed
qed

lemma read_loop_shape:
  "read_loop fc cs e = (evs, r) \<Longrightarrow> (r \<noteq> None \<longrightarrow> chunk_phase evs) \<and> turn_shape fc evs"
proof (induction cs arbitrary: fc evs r)
  case Nil
  then show ?case by (cases e) (auto simp: turn_shape_def chunk_phase_def)
next
  case (Cons c cs)
  obtain e1 r1 where p1: "process_lines fc (split_newline c) = (e1, r1)"
    by (cases "process_lines fc (split_newline c)")
  show ?case
  proof (cases r1)
    case None
    with Cons.prems p1 have "evs = e1" "r = None" by auto
    with process_lines_ret [OF p1 [unfolded None]] show ?thesis
      unfolding turn_shape_def by blast
  next
    case (Some fc1)
    obtain e2 r2 where p2: "read_loop fc1 cs e = (e2, r2)" by (cases "read_loop fc1 cs e")
    from Cons.prems p1 Some p2 have evs: "evs = e1 @ e2" and r2: "r2 = r" by auto
    from process_lines_cont p1 Some have a: "chunk_phase e1" "fc1 = fc @ texts e1" by auto
    from Cons.IH [OF p2] have b: "r2 \<noteq> None \<longrightarrow> chunk_phase e2" "turn_shape fc1 e2" by auto
    from a b evs r2 show ?thesis
      by (auto simp: chunk_phase_append intro: turn_shape_prepend)
  qed
qed

lemma no_callbacks_silent:
  assumes "\<forall>e \<in> set evs. \<not> is_callback e"
  shows "callbacks evs = []" and "chunks_of evs = []" and "filter is_terminal evs = []"
proof -
  from assms show "callbacks evs = []" by (simp add: callbacks_def filter_empty_conv)
  from assms show "chunks_of evs = []" by (induction evs rule: chunks_of.induct) auto
  have "\<not> is_callback e \<Longrightarrow> \<not> is_terminal e" for e by (cases e) simp_all
  with assms show "filter is_terminal evs = []" by (auto simp: filter_empty_conv)
qed

text \<open>
  The form of every trace: either no terminal callback at all, or events without a
  terminal callback, then one terminal callback, then events that are no callbacks.
\<close>

lemma stream_shape:
  obtains (unterminated) "chunk_phase (sendMessageStream r)"
  | (terminated) pre t post where
      "sendMessageStream r = pre @ t # post" "chunk_phase pre"
      "t = OnComplete (texts pre) \<or> (\<exists>e. t = OnError e)"
      "\<forall>e \<in> set post. \<not> is_callback e"
proof -
  have caught: thesis if "sendMessageStream r = pre @ catch_outer m" "chunk_phase pre" for pre m
  proof (rule terminated [of "pre @ [ConsoleError]" _ "[]"])
    show "sendMessageStream r =
        (pre @ [ConsoleError]) @ OnError (JStr (if m = [] then networkErrorText else m)) # []"
      using that(1) by (simp add: catch_outer_def)
    show "chunk_phase (pre @ [ConsoleError])"
      using that(2) by (simp add: chunk_phase_append chunk_phase_def)
  qed simp_all
  show thesis
  proof (cases r)
    case (FetchRejected m)
    then have "sendMessageStream r = [] @ catch_outer m"
      by (simp add: sendMessageStream_def)
    then show ?thesis by (rule caught) (simp add: chunk_phase_def)
  next
    case (Response status body)
    show ?thesis
    proof (cases "200 \<le> status \<and> status \<le> 299")
      case False
      with Response
      have "sendMessageStream r = [] @ catch_outer (js ''HTTP error! status: '' @ decimal status)"
        by (simp add: sendMessageStream_def)
      then show ?thesis by (rule caught) (simp add: chunk_phase_def)
    next
      case ok: True
      show ?thesis
      proof (cases body)
        case None
        with Response ok have "sendMessageStream r = [] @ catch_outer noReaderText"
          by (simp add: sendMessageStream_def)
        then show ?thesis by (rule caught) (simp add: chunk_phase_def)
      next
        case (Some b)
        obtain chunks e where b: "b = (chunks, e)" by (cases b)
        obtain evs res where rl: "read_loop [] chunks e = (evs, res)"
          by (cases "read_loop [] chunks e")
        from read_loop_shape [OF rl] have sh: "turn_shape [] evs"
          and thrown: "res \<noteq> None \<longrightarrow> chunk_phase evs" by simp_all
        show ?thesis
        proof (cases res)
          case None
          with Response ok Some b rl have tr: "sendMessageStream r = evs @ [ReleaseLock]"
            by (simp add: sendMessageStream_def)
          from sh consider "chunk_phase evs"
            | pre t where "evs = pre @ [t]" "chunk_phase pre"
                "t = OnComplete (texts pre) \<or> (\<exists>e. t = OnError e)"
            unfolding turn_shape_def by auto
          then show ?thesis
          proof cases
            case 1
            with tr have "chunk_phase (sendMessageStream r)"
              by (simp add: chunk_phase_append chunk_phase_def)
            then show ?thesis by (rule unterminated)
          next
            case 2
            with tr have "sendMessageStream r = pre @ t # [ReleaseLock]" by simp
            then show ?thesis using 2(2,3) by (rule terminated) simp
          qed
        next
          case (Some m)
          with Response ok \<open>body = Some b\<close> b rl
          have "sendMessageStream r = (evs @ [ReleaseLock]) @ catch_outer m"
            by (simp add: sendMessageStream_def)
          moreover from thrown Some have "chunk_phase (evs @ [ReleaseLock])"
            by (simp add: chunk_phase_append chunk_phase_def)
          ultimately show ?thesis by (rule caught)
        qed
      qed
    qed
  qed
qed

text \<open>The trace of the scenario.\<close>

lemma trace_hi_there:
  "sendMessageStream stream_hi_there =
     [OnChunk (JStr (js ''Hi'')), OnChunk (JStr (js '' there'')), OnComplete (js ''Hi there''),
      ReleaseLock]"
  by (simp add: stream_eval stream_hi_there_def)

text \<open>The start of a turn from the idle page.\<close>

lemma start_hello:
  "sendMessage_start fresh_ids (idle_page (js ''hello'')) = Some (streaming_page, hello_request)"
  by (simp add: page_eval)

text \<open>The trace when the content of a line cannot be converted to a string.\<close>

lemma trace_object_delta:
  "sendMessageStream stream_object_delta =
     [OnChunk (JObj [(js ''toString'', JStr (js ''x''))]), ConsoleWarn, OnComplete [],
      ReleaseLock]"
  by (simp add: stream_eval stream_object_delta_def)

text \<open>
  Claim C1. Whenever the call reports completion, the text it hands to \<^verbatim>\<open>onComplete\<close> is
  the concatenation, in delivery order, of the texts of the values it has handed to
  \<^verbatim>\<open>onChunk\<close>, a value that cannot be converted to a string counting for nothing; when
  the values delivered are strings, it is the concatenation of these strings.
\<close>

theorem stream_round_trip:
  assumes "OnComplete finalText \<in> set (sendMessageStream r)"
  shows "finalText = concat (map delta_text (chunks_of (sendMessageStream r)))
         \<and> (chunks_of (sendMessageStream r) = map JStr deltas \<longrightarrow> finalText = concat deltas)"
proof (cases r rule: stream_shape)
  case unterminated
  with assms show ?thesis by (auto simp: chunk_phase_def)
next
  case (terminated pre t post)
  from assms terminated(1) have "OnComplete finalText \<in> set pre \<union> {t} \<union> set post" by simp
  moreover from terminated(2) have "OnComplete finalText \<notin> set pre"
    by (auto simp: chunk_phase_def)
  moreover from terminated(4) have "OnComplete finalText \<notin> set post" by auto
  ultimately have "t = OnComplete finalText" by blast
  with terminated(3) have "finalText = texts pre" by auto
  moreover have "chunks_of (sendMessageStream r) = chunks_of pre"
    using terminated(1) \<open>t = OnComplete finalText\<close> no_callbacks_silent(2) [OF terminated(4)]
    by (simp add: chunks_of_append)
  ultimately have eq: "finalText = concat (map delta_text (chunks_of (sendMessageStream r)))"
    by (simp add: texts_def)
  have "concat (map delta_text (map JStr deltas)) = concat deltas"
    by (induction deltas) (simp_all add: delta_text_def)
  with eq show ?thesis by auto
qed

theorem stream_round_trip_witness:
  "OnComplete (js ''Hi there'') \<in> set (sendMessageStream stream_hi_there)
   \<and> chunks_of (sendMessageStream stream_hi_there) = map JStr [js ''Hi'', js '' there'']
   \<and> js ''Hi there'' = concat [js ''Hi'', js '' there'']"
proof -
  have m: "OnComplete (js ''Hi there'') \<in> set (sendMessageStream stream_hi_there)"
    and c: "chunks_of (sendMessageStream stream_hi_there) = map JStr [js ''Hi'', js '' there'']"
    by (simp_all add: trace_hi_there)
  from stream_round_trip [OF m, of "[js ''Hi'', js '' there'']"] c
  have "js ''Hi there'' = concat [js ''Hi'', js '' there'']" by blast
  with m c show ?thesis by (intro conjI)
qed

text \<open>
  Claim C2. For every response, the callbacks invoked are the content callbacks followed
  by the terminal callbacks, and there is at most one terminal callback: a terminal
  callback is the last callback, and none of the three callbacks follows it.
\<close>

theorem stream_terminal_last:
  "callbacks (sendMessageStream r) =
     map OnChunk (chunks_of (sendMessageStream r)) @ filter is_terminal (sendMessageStream r)
   \<and> length (filter is_terminal (sendMessageStream r)) \<le> 1"
proof (cases r rule: stream_shape)
  case unterminated
  then show ?thesis by (simp add: callbacks_chunk_phase terminals_chunk_phase)
next
  case (terminated pre t post)
  from terminated(3) have t: "is_callback t" "is_terminal t" "chunks_of (t # post) = chunks_of post"
    by auto
  note silent = no_callbacks_silent [OF terminated(4)]
  have "callbacks (sendMessageStream r) = map OnChunk (chunks_of pre) @ [t]"
    using terminated(1) t(1) silent(1) callbacks_chunk_phase [OF terminated(2)]
    by (simp add: callbacks_def)
  moreover have "filter is_terminal (sendMessageStream r) = [t]"
    using terminated(1) t(2) silent(3) terminals_chunk_phase [OF terminated(2)] by simp
  moreover have "chunks_of (sendMessageStream r) = chunks_of pre"
    using terminated(1) t(3) silent(2) by (simp add: chunks_of_append)
  ultimately show ?thesis by simp
qed

theorem stream_terminal_last_witness:
  "callbacks (sendMessageStream stream_hi_there) =
     [OnChunk (JStr (js ''Hi'')), OnChunk (JStr (js '' there'')), OnComplete (js ''Hi there'')]
   \<and> filter is_terminal (sendMessageStream stream_hi_there) = [OnComplete (js ''Hi there'')]"
proof -
  have c: "chunks_of (sendMessageStream stream_hi_there) = [JStr (js ''Hi''), JStr (js '' there'')]"
    and t: "filter is_terminal (sendMessageStream stream_hi_there) = [OnComplete (js ''Hi there'')]"
    by (simp_all add: trace_hi_there)
  from stream_terminal_last [of stream_hi_there] c t show ?thesis by simp
qed

text \<open>
  Claim C3, at the input where it fails. The stream carries one content line and then
  ends without a terminal line: the call returns after the content callback and the
  release of the reader, and has invoked neither \<^verbatim>\<open>onComplete\<close> nor \<^verbatim>\<open>onError\<close>; on the
  page the placeholder is left marked as streaming.
\<close>

theorem stream_cut_short_evaluated:
  "sendMessageStream stream_cut_short = [OnChunk (JStr (js ''Hi'')), ReleaseLock]
   \<and> filter is_terminal (sendMessageStream stream_cut_short) = []
   \<and> map_option (map isStreaming \<circ> messages)
        (fst (sendMessage fresh_ids stream_cut_short (idle_page (js ''hello'')))) =
       Some [None, Some True]"
proof -
  have tr: "sendMessageStream stream_cut_short = [OnChunk (JStr (js ''Hi'')), ReleaseLock]"
    by (simp add: stream_eval stream_cut_short_def)
  have "map_option (map isStreaming \<circ> messages)
        (fst (sendMessage fresh_ids stream_cut_short (idle_page (js ''hello'')))) =
       Some [None, Some True]"
    unfolding sendMessage_def start_hello tr
    by (simp add: onChunk_def streaming_page_def fresh_ids_def js_def delta_text_def)
  with tr show ?thesis by simp
qed

text \<open>
  Claim C4, at the input where it fails. The provider produced one content unit
  \<^verbatim>\<open>Hi\<close>; when its line arrives in one read it is delivered, when the line arrives in two
  reads each half is rejected by \<^verbatim>\<open>JSON.parse\<close> with a warning and nothing is delivered.
\<close>

theorem stream_split_line_evaluated:
  "sendMessageStream stream_joined_line =
     [OnChunk (JStr (js ''Hi'')), OnComplete (js ''Hi''), ReleaseLock]
   \<and> sendMessageStream stream_split_line =
     [ConsoleWarn, ConsoleWarn, OnComplete [], ReleaseLock]"
  by (simp add: stream_eval stream_joined_line_def stream_split_line_def)

text \<open>
  The loss is confined to lines that span two reads: when every read ends with a line
  feed, the loop produces the events of the lines of the whole text, in order.
\<close>

lemma split_newline_nonempty: "split_newline s \<noteq> []"
  by (induction s) (auto split: list.splits)

lemma split_newline_append:
  "split_newline (xs @ 0x0A # ys) = split_newline xs @ split_newline ys"
proof (induction xs)
  case Nil
  then show ?case by simp
next
  case (Cons c xs)
  obtain l ls where "split_newline xs = l # ls"
    using split_newline_nonempty [of xs] by (cases "split_newline xs") auto
  with Cons show ?case by simp
qed

lemma process_lines_append:
  "process_lines fc (as @ bs) =
     (case process_lines fc as of
        (evs, None) \<Rightarrow> (evs, None)
      | (evs, Some fc') \<Rightarrow> (case process_lines fc' bs of (evs', r) \<Rightarrow> (evs @ evs', r)))"
  by (induction as arbitrary: fc) (auto split: prod.splits option.splits)

lemma process_line_blank: "process_line fc [] = ([], Some fc)"
  by (simp add: process_line_def trim_def)

lemma read_loop_aligned:
  assumes "\<forall>c \<in> set chunks. c \<noteq> [] \<and> last c = 0x0A"
  shows "fst (read_loop fc chunks e) = fst (process_lines fc (split_newline (concat chunks)))"
  using assms
proof (induction chunks arbitrary: fc)
  case Nil
  show ?case by (cases e) (simp_all add: process_line_blank)
next
  case (Cons c cs)
  then obtain xs where c: "c = xs @ [0x0A]"
    by (metis append_butlast_last_id list.set_intros(1))
  have whole: "split_newline (concat (c # cs)) = split_newline xs @ split_newline (concat cs)"
    using c by (simp add: split_newline_append)
  have one: "split_newline c = split_newline xs @ [[]]"
    using c split_newline_append [of xs "[]"] by simp
  obtain evs r where p: "process_lines fc (split_newline xs) = (evs, r)"
    by (cases "process_lines fc (split_newline xs)")
  show ?case
  proof (cases r)
    case None
    with p show ?thesis unfolding whole by (simp add: one process_lines_append)
  next
    case (Some fc')
    from Cons have "fst (read_loop fc' cs e) = fst (process_lines fc' (split_newline (concat cs)))"
      by simp
    with p Some show ?thesis unfolding whole
      by (auto simp: one process_lines_append process_line_blank split: prod.splits)
  qed
qed

text \<open>A line whose trimmed text is empty is never valid JSON.\<close>

lemma trim_empty_all_space:
  assumes "trim s = []"
  shows "\<forall>c \<in> set s. is_js_space c"
proof -
  from assms have "dropWhile is_js_space (rev (dropWhile is_js_space s)) = []"
    by (simp add: trim_def)
  then have "\<forall>c \<in> set (dropWhile is_js_space s). is_js_space c"
    by (simp add: dropWhile_eq_Nil_conv)
  then have "dropWhile is_js_space s = []"
    by (metis hd_dropWhile hd_in_set)
  then show ?thesis by (simp add: dropWhile_eq_Nil_conv)
qed

lemma js_space_cases:
  "is_js_space c \<Longrightarrow> \<not> (0x2000 \<le> c \<and> c \<le> 0x200A) \<Longrightarrow>
     c \<in> {0x09, 0x0A, 0x0B, 0x0C, 0x0D, 0x20, 0xA0, 0x1680, 0x2028, 0x2029, 0x202F, 0x205F,
          0x3000, 0xFEFF}"
  unfolding is_js_space_def by blast

lemma lex_top_at_space:
  "lex_top 0x09 = Some (LTop, [])" "lex_top 0x0A = Some (LTop, [])" "lex_top 0x0B = None"
  "lex_top 0x0C = None" "lex_top 0x0D = Some (LTop, [])" "lex_top 0x20 = Some (LTop, [])"
  "lex_top 0xA0 = None" "lex_top 0x1680 = None" "lex_top 0x2028 = None" "lex_top 0x2029 = None"
  "lex_top 0x202F = None" "lex_top 0x205F = None" "lex_top 0x3000 = None" "lex_top 0xFEFF = None"
  by (simp_all add: lex_top_def is_digit_def)

lemma lex_top_space_range:
  assumes "0x2000 \<le> c \<and> c \<le> 0x200A"
  shows "lex_top c = None"
proof -
  have ne: "c \<noteq> k" if "k \<le> 0x7D" for k
  proof
    assume "c = k"
    with assms that have "(0x2000 :: code_unit) \<le> 0x7D" by (metis order_trans)
    then show False by simp
  qed
  have "\<not> c \<le> 0x39"
  proof
    assume "c \<le> 0x39"
    with assms have "(0x2000 :: code_unit) \<le> 0x39" by (metis order_trans)
    then show False by simp
  qed
  with ne [of "0x20"] ne [of "0x09"] ne [of "0x0A"] ne [of "0x0D"] ne [of "0x7B"]
    ne [of "0x7D"] ne [of "0x5B"] ne [of "0x5D"] ne [of "0x3A"] ne [of "0x2C"] ne [of "0x22"]
    ne [of "0x2D"] ne [of "0x30"] ne [of "0x74"] ne [of "0x66"] ne [of "0x6E"]
  show ?thesis by (simp add: lex_top_def is_digit_def)
qed

lemma lex_top_space:
  assumes "is_js_space c"
  shows "lex_top c = None \<or> lex_top c = Some (LTop, [])"
proof (cases "0x2000 \<le> c \<and> c \<le> 0x200A")
  case True
  then show ?thesis by (simp add: lex_top_space_range)
next
  case False
  with assms have "c \<in> {0x09, 0x0A, 0x0B, 0x0C, 0x0D, 0x20, 0xA0, 0x1680, 0x2028, 0x2029,
      0x202F, 0x205F, 0x3000, 0xFEFF}"
    by (rule js_space_cases)
  then show ?thesis
    using lex_top_at_space by (elim insertE emptyE) (simp_all only:, simp_all)
qed

lemma lex_all_space:
  "\<forall>c \<in> set s. is_js_space c \<Longrightarrow> lex LTop s = None \<or> lex LTop s = Some []"
proof (induction s)
  case Nil
  then show ?case by simp
next
  case (Cons c s)
  then have "lex_top c = None \<or> lex_top c = Some (LTop, [])" by (simp add: lex_top_space)
  with Cons show ?case by auto
qed

lemma blank_line_not_json: "trim line = [] \<Longrightarrow> JSON_parse line = None"
  using lex_all_space [OF trim_empty_all_space, of line]
  by (auto simp: JSON_parse_def)

text \<open>
  Claim C5, as amended. Lines that \<^verbatim>\<open>JSON.parse\<close> rejects invoke no callback and leave
  \<^verbatim>\<open>fullContent\<close> as it is; each is logged with one warning when its trimmed text is not
  empty, and skipped without a warning when it is. A turn is not failed for lack of
  valid output: when only such lines precede a \<^verbatim>\<open>done\<close> line, the call completes with
  the text accumulated before them.
\<close>

theorem invalid_lines_skipped:
  assumes "\<forall>l \<in> set ls. JSON_parse l = None"
  shows "process_lines fullContent ls =
           (replicate (length (filter (\<lambda>l. trim l \<noteq> []) ls)) ConsoleWarn, Some fullContent)
         \<and> (JSON_parse line = Some d \<and> get_prop d (js ''type'') = JStr (js ''done'') \<longrightarrow>
              process_lines fullContent (ls @ line # rest) =
                (replicate (length (filter (\<lambda>l. trim l \<noteq> []) ls)) ConsoleWarn
                   @ [OnComplete fullContent], None))"
  using assms
proof (induction ls)
  case Nil
  have "trim line \<noteq> []" if "JSON_parse line = Some d"
    using that blank_line_not_json [of line] by auto
  moreover have "js ''done'' \<noteq> js ''content''" by (simp add: js_def)
  ultimately show ?case by (auto simp: process_line_def)
next
  case (Cons l ls)
  then have "process_line fullContent l =
      (if trim l = [] then [] else [ConsoleWarn], Some fullContent)"
    by (simp add: process_line_def)
  with Cons show ?case by (simp add: replicate_app_Cons_same)
qed

theorem invalid_lines_skipped_witness:
  \<open>JSON_parse (js ''garbage'') = None \<and> JSON_parse [] = None
   \<and> process_lines (js ''Hi'') [js ''garbage'', []] = ([ConsoleWarn], Some (js ''Hi''))
   \<and> JSON_parse (js ''{"type":"done"}'') = Some (JObj [(js ''type'', JStr (js ''done''))])
   \<and> process_lines (js ''Hi'') [js ''garbage'', [], js ''{"type":"done"}'', []] =
       ([ConsoleWarn, OnComplete (js ''Hi'')], None)\<close>
proof -
  have g: "JSON_parse (js ''garbage'') = None" and e: "JSON_parse [] = None" 
    by (simp_all add: stream_eval)
  have d: \<open>JSON_parse (js ''{"type":"done"}'') = Some (JObj [(js ''type'', JStr (js ''done''))])\<close>
    by (simp add: stream_eval)
  have t: "get_prop (JObj [(js ''type'', JStr (js ''done''))]) (js ''type'') = JStr (js ''done'')"
    by simp
  have w: "trim (js ''garbage'') \<noteq> []" "trim [] = []" 
    by (simp_all add: stream_eval)
  from g e have a: "\<forall>l \<in> set [js ''garbage'', []]. JSON_parse l = None" by simp
  note th = invalid_lines_skipped [OF a, of "js ''Hi''" \<open>js ''{"type":"done"}''\<close>
      "JObj [(js ''type'', JStr (js ''done''))]" "[[]]"]
  from th w have x: "process_lines (js ''Hi'') [js ''garbage'', []] = ([ConsoleWarn], Some (js ''Hi''))"
    by simp
  from th d t w
  have y: \<open>process_lines (js ''Hi'') [js ''garbage'', [], js ''{"type":"done"}'', []] =
       ([ConsoleWarn, OnComplete (js ''Hi'')], None)\<close>
    by simp
  from g e x d y show ?thesis by (intro conjI)
qed

text \<open>
  Claim C5 as stated fails: a blank line is not valid JSON and is skipped with no
  warning, and a stream that produces no valid output unit before its \<^verbatim>\<open>done\<close> line
  completes with the empty text and no error.
\<close>

theorem invalid_line_counterexample:
  "JSON_parse (js ''   '') = None
   \<and> process_line [] (js ''   '') = ([], Some [])
   \<and> sendMessageStream stream_garbage_then_done = [ConsoleWarn, OnComplete [], ReleaseLock]"
  by (simp add: stream_eval stream_garbage_then_done_def)

section \<open>Properties of sendMessage\<close>

text \<open>
  The page after a sequence of events. An unmounted page stays unmounted; a chunk whose
  conversion succeeds, or that meets no message with the placeholder's id, updates the list.
\<close>

lemma deliver_unmounted: "foldl (deliver a) None evs = None"
  by (induction evs) simp_all

lemma onChunk_Some:
  "onChunk a v st = Some st' \<Longrightarrow>
     st' = st\<lparr>messages := map (\<lambda>msg. if msg_id msg = a
                                       then msg\<lparr>content := content msg @ delta_text v\<rparr>
                                       else msg) (messages st)\<rparr>"
  by (auto simp: onChunk_def split: if_splits)

lemma onChunk_converts:
  "ToString v \<noteq> None \<Longrightarrow>
     onChunk a v st =
       Some (st\<lparr>messages := map (\<lambda>msg. if msg_id msg = a
                                         then msg\<lparr>content := content msg @ delta_text v\<rparr>
                                         else msg) (messages st)\<rparr>)"
  by (simp add: onChunk_def)

lemma deliver_chunk_phase:
  "chunk_phase evs \<Longrightarrow> foldl (deliver a) (Some st) evs = Some st' \<Longrightarrow>
     st' = st\<lparr>messages := map (\<lambda>msg. if msg_id msg = a
                                       then msg\<lparr>content := content msg @ texts evs\<rparr>
                                       else msg) (messages st)\<rparr>"
proof (induction evs arbitrary: st' rule: rev_induct)
  case Nil
  then show ?case by (simp add: texts_def cong: if_cong)
next
  case (snoc e evs)
  from snoc.prems(1) have cp: "chunk_phase evs" and nt: "\<not> is_terminal e"
    by (simp_all add: chunk_phase_append chunk_phase_def)
  from snoc.prems(2) have d: "deliver a (foldl (deliver a) (Some st) evs) e = Some st'"
    by simp
  then obtain st1 where st1: "foldl (deliver a) (Some st) evs = Some st1"
    by (cases "foldl (deliver a) (Some st) evs") simp_all
  note ih = snoc.IH [OF cp st1]
  show ?case
  proof (cases e)
    case (OnChunk v)
    then have "texts (evs @ [e]) = texts evs @ delta_text v"
      by (simp add: texts_def chunks_of_append)
    moreover from d st1 OnChunk have "onChunk a v st1 = Some st'" by simp
    then have "st' = st1\<lparr>messages := map (\<lambda>msg. if msg_id msg = a
                                       then msg\<lparr>content := content msg @ delta_text v\<rparr>
                                       else msg) (messages st1)\<rparr>"
      by (rule onChunk_Some)
    ultimately show ?thesis
      unfolding ih by (simp add: comp_def if_distrib cong: if_cong)
  next
    case (OnComplete s)
    with nt show ?thesis by simp
  next
    case (OnError x)
    with nt show ?thesis by simp
  next
    case ConsoleWarn
    then have tx: "texts (evs @ [e]) = texts evs" by (simp add: texts_def chunks_of_append)
    from d st1 ConsoleWarn have "st' = st1" by simp
    with ih show ?thesis unfolding tx by simp
  next
    case ConsoleError
    then have tx: "texts (evs @ [e]) = texts evs" by (simp add: texts_def chunks_of_append)
    from d st1 ConsoleError have "st' = st1" by simp
    with ih show ?thesis unfolding tx by simp
  next
    case ReleaseLock
    then have tx: "texts (evs @ [e]) = texts evs" by (simp add: texts_def chunks_of_append)
    from d st1 ReleaseLock have "st' = st1" by simp
    with ih show ?thesis unfolding tx by simp
  qed
qed




text \<open>
  Once the conversion of a delivered value throws while the placeholder is in the list,
  the page is unmounted and stays so.
\<close>

lemma deliver_ids:
  "deliver a (Some st) e = Some st' \<Longrightarrow> map msg_id (messages st') = map msg_id (messages st)"
  by (cases e)
    (auto simp: onChunk_def onComplete_def onError_def comp_def if_distrib split: if_splits
      cong: if_cong)

lemma deliver_throws:
  "v \<in> set (chunks_of evs) \<Longrightarrow> ToString v = None \<Longrightarrow> a \<in> set (map msg_id (messages st)) \<Longrightarrow>
     foldl (deliver a) (Some st) evs = None"
proof (induction evs arbitrary: st)
  case Nil
  then show ?case by simp
next
  case (Cons e evs)
  show ?case
  proof (cases "deliver a (Some st) e")
    case None
    then show ?thesis by (simp add: deliver_unmounted)
  next
    case (Some st1)
    from deliver_ids [OF Some] Cons.prems(3) have ids: "a \<in> set (map msg_id (messages st1))"
      by simp
    have "v \<in> set (chunks_of evs)"
    proof (cases e)
      case (OnChunk w)
      with Some have "onChunk a w st = Some st1" by simp
      with Cons.prems(3) have "ToString w \<noteq> None" by (auto simp: onChunk_def split: if_splits)
      with Cons.prems(1,2) OnChunk show ?thesis by auto
    qed (use Cons.prems(1) in simp_all)
    from Cons.IH [OF this Cons.prems(2) ids] Some show ?thesis by simp
  qed
qed

lemma trim_no_space:
  assumes "\<not> is_js_space c"
  shows "trim (replicate (Suc n) c) = replicate (Suc n) c"
proof -
  have "dropWhile is_js_space (replicate (Suc n) c) = replicate (Suc n) c"
    using assms by simp
  moreover have "rev (replicate (Suc n) c) = replicate (Suc n) c" by (rule rev_replicate)
  ultimately show ?thesis unfolding trim_def by (simp only:)
qed


text \<open>
  Claim C6, as amended. An input whose trimmed text is empty makes \<^verbatim>\<open>sendMessage\<close> return
  at once: the page is unchanged (no user message, no placeholder) and no request is
  sent. There is no maximum length: every input whose trimmed text is not empty is
  sent, whatever its length, when no turn is in flight.
\<close>

theorem empty_input_rejected:
  "(trim (inputValue st) = [] \<longrightarrow> sendMessage f r st = (Some st, None))
   \<and> (trim (inputValue st) \<noteq> [] \<and> \<not> isLoading st \<longrightarrow>
        snd (sendMessage f r st) =
          Some \<lparr>message = trim (inputValue st), session_id = currentSessionId st,
                user_id = js ''user_001''\<rparr>)"
  by (simp add: sendMessage_def sendMessage_start_def userMessage_def)

theorem empty_input_rejected_witness:
  "trim (inputValue (idle_page (js ''   ''))) = []
   \<and> sendMessage fresh_ids stream_hi_there (idle_page (js ''   '')) =
       (Some (idle_page (js ''   '')), None)
   \<and> trim (inputValue (idle_page (js '' hello ''))) = js ''hello''
   \<and> snd (sendMessage fresh_ids stream_hi_there (idle_page (js '' hello ''))) =
       Some \<lparr>message = js ''hello'', session_id = js ''s1'', user_id = js ''user_001''\<rparr>"
proof -
  have a: "trim (inputValue (idle_page (js ''   ''))) = []"
    by (simp add: page_eval)
  have b: "trim (inputValue (idle_page (js '' hello ''))) = js ''hello''"
    by (simp add: page_eval)
  have c: "js ''hello'' \<noteq> []" by (simp add: js_def)
  have d: "\<not> isLoading (idle_page (js '' hello ''))"
    and e: "currentSessionId (idle_page (js '' hello '')) = js ''s1''"
    by (simp_all add: idle_page_def mount_def)
  from empty_input_rejected [of "idle_page (js ''   '')" fresh_ids stream_hi_there] a
  have x: "sendMessage fresh_ids stream_hi_there (idle_page (js ''   '')) =
             (Some (idle_page (js ''   '')), None)"
    by simp
  from empty_input_rejected [of "idle_page (js '' hello '')" fresh_ids stream_hi_there] b c d e
  have y: "snd (sendMessage fresh_ids stream_hi_there (idle_page (js '' hello ''))) =
       Some \<lparr>message = js ''hello'', session_id = js ''s1'', user_id = js ''user_001''\<rparr>"
    by simp
  from a x b y show ?thesis by (intro conjI)
qed

text \<open>
  Claim C6 as stated fails: an input of 2001 code units is accepted and sent whole.
\<close>

theorem long_input_counterexample:
  "length (replicate 2001 (0x61 :: code_unit)) = 2001
   \<and> snd (sendMessage fresh_ids stream_hi_there (idle_page (replicate 2001 0x61))) =
       Some \<lparr>message = replicate 2001 0x61, session_id = js ''s1'', user_id = js ''user_001''\<rparr>"
proof -
  have "\<not> is_js_space (0x61 :: code_unit)" by (simp add: is_js_space_def)
  from trim_no_space [OF this, of 2000]
  have "trim (replicate 2001 (0x61 :: code_unit)) = replicate 2001 0x61" by simp
  then show ?thesis
    by (simp add: sendMessage_def sendMessage_start_def userMessage_def idle_page_def mount_def)
qed




text \<open>
  Claim C8, as amended. In the component that started a turn, while that turn is in
  flight, that is, in every state reached from an accepted start by events that contain
  no terminal callback, and whatever text is in the input box, a call of \<^verbatim>\<open>sendMessage\<close>
  returns at once: the page, and so its message list and its list of error toasts, is
  unchanged, and no request is sent. Nothing is reported: the guard is a plain return.
  The flag that the guard reads belongs to the mounted component, not to the session: a
  component that is newly mounted for any session id sends every input whose trimmed text
  is not empty.
\<close>

theorem second_send_ignored:
  assumes "sendMessage_start f st = Some (st1, req)" and "chunk_phase evs"
    and "foldl (deliver (aiMessageId f)) (Some st1) evs = Some st2"
  shows "sendMessage f' r' (st2\<lparr>inputValue := txt\<rparr>) = (Some (st2\<lparr>inputValue := txt\<rparr>), None)
         \<and> (trim txt \<noteq> [] \<longrightarrow>
              snd (sendMessage f' r' ((mount sid)\<lparr>inputValue := txt\<rparr>)) =
                Some \<lparr>message = trim txt, session_id = sid, user_id = js ''user_001''\<rparr>)"
proof -
  from assms(1) have "isLoading st1"
    by (auto simp: sendMessage_start_def split: if_splits)
  with deliver_chunk_phase [OF assms(2,3)] have "isLoading st2" by simp
  then show ?thesis
    by (simp add: sendMessage_def sendMessage_start_def mount_def userMessage_def)
qed

theorem second_send_ignored_witness:
  "sendMessage_start fresh_ids (idle_page (js ''hello'')) = Some (streaming_page, hello_request)
   \<and> chunk_phase [OnChunk (JStr (js ''Hi''))]
   \<and> foldl (deliver (aiMessageId fresh_ids)) (Some streaming_page) [OnChunk (JStr (js ''Hi''))] =
       onChunk (js ''a1'') (JStr (js ''Hi'')) streaming_page
   \<and> map_option (\<lambda>p. sendMessage second_ids stream_hi_there (p\<lparr>inputValue := js ''again''\<rparr>))
        (onChunk (js ''a1'') (JStr (js ''Hi'')) streaming_page) =
       map_option (\<lambda>p. (Some (p\<lparr>inputValue := js ''again''\<rparr>), None))
        (onChunk (js ''a1'') (JStr (js ''Hi'')) streaming_page)
   \<and> onChunk (js ''a1'') (JStr (js ''Hi'')) streaming_page \<noteq> None
   \<and> trim (js ''again'') = js ''again''
   \<and> snd (sendMessage second_ids stream_hi_there ((mount (js ''s1''))\<lparr>inputValue := js ''again''\<rparr>)) =
       Some \<lparr>message = js ''again'', session_id = js ''s1'', user_id = js ''user_001''\<rparr>"
proof -
  have c: "chunk_phase [OnChunk (JStr (js ''Hi''))]" by (simp add: chunk_phase_def)
  have f: "foldl (deliver (aiMessageId fresh_ids)) (Some streaming_page) [OnChunk (JStr (js ''Hi''))] =
       onChunk (js ''a1'') (JStr (js ''Hi'')) streaming_page"
    by (simp add: fresh_ids_def)
  obtain p where p: "onChunk (js ''a1'') (JStr (js ''Hi'')) streaming_page = Some p"
    by (simp add: onChunk_def)
  have t: "trim (js ''again'') = js ''again''" by (simp add: trim_def js_def is_js_space_def)
  have n: "js ''again'' \<noteq> []" by (simp add: js_def)
  note th = second_send_ignored [OF start_hello c f [unfolded p], of second_ids stream_hi_there
      "js ''again''" "js ''s1''"]
  from th have x: "sendMessage second_ids stream_hi_there (p\<lparr>inputValue := js ''again''\<rparr>) =
      (Some (p\<lparr>inputValue := js ''again''\<rparr>), None)"
    by (rule conjunct1)
  from th t n
  have y: "snd (sendMessage second_ids stream_hi_there ((mount (js ''s1''))\<lparr>inputValue := js ''again''\<rparr>)) =
       Some \<lparr>message = js ''again'', session_id = js ''s1'', user_id = js ''user_001''\<rparr>"
    by simp
  from x have x': "map_option (\<lambda>p. sendMessage second_ids stream_hi_there (p\<lparr>inputValue := js ''again''\<rparr>))
        (onChunk (js ''a1'') (JStr (js ''Hi'')) streaming_page) =
       map_option (\<lambda>p. (Some (p\<lparr>inputValue := js ''again''\<rparr>), None))
        (onChunk (js ''a1'') (JStr (js ''Hi'')) streaming_page)"
    by (simp add: p)
  have z: "onChunk (js ''a1'') (JStr (js ''Hi'')) streaming_page \<noteq> None" by (simp add: p)
  from start_hello c f x' z t y show ?thesis by (intro conjI)
qed

text \<open>
  Claim C8 as stated fails. A turn on session \<^verbatim>\<open>s1\<close> is in flight. In the component that
  started it a second call returns silently: no error toast is added and no second
  placeholder. In a component newly mounted for \<^verbatim>\<open>s1\<close> (the page was left and entered
  again while the stream runs) a second turn on that session is accepted: the request
  is issued for \<^verbatim>\<open>s1\<close> and a second assistant placeholder is appended.
\<close>

theorem session_busy_counterexample:
  "sendMessage_start fresh_ids (idle_page (js ''hello'')) = Some (streaming_page, hello_request)
   \<and> isLoading streaming_page
   \<and> currentSessionId streaming_page = js ''s1''
   \<and> sendMessage second_ids stream_hi_there (streaming_page\<lparr>inputValue := js ''again''\<rparr>) =
       (Some (streaming_page\<lparr>inputValue := js ''again''\<rparr>), None)
   \<and> errorToasts (streaming_page\<lparr>inputValue := js ''again''\<rparr>) = []
   \<and> map_option (session_id \<circ> snd)
        (sendMessage_start second_ids ((mount (js ''s1''))\<lparr>inputValue := js ''again''\<rparr>)) =
       Some (js ''s1'')
   \<and> map_option (map msg_type \<circ> messages \<circ> fst)
        (sendMessage_start second_ids ((mount (js ''s1''))\<lparr>inputValue := js ''again''\<rparr>)) =
       Some [User, Assistant]"
proof -
  have "sendMessage second_ids stream_hi_there (streaming_page\<lparr>inputValue := js ''again''\<rparr>) =
       (Some (streaming_page\<lparr>inputValue := js ''again''\<rparr>), None)"
    by (simp add: sendMessage_def sendMessage_start_def streaming_page_def)
  moreover have "isLoading streaming_page" "currentSessionId streaming_page = js ''s1''"
    "errorToasts (streaming_page\<lparr>inputValue := js ''again''\<rparr>) = []"
    by (simp_all add: streaming_page_def)
  moreover have "map_option (session_id \<circ> snd)
        (sendMessage_start second_ids ((mount (js ''s1''))\<lparr>inputValue := js ''again''\<rparr>)) =
       Some (js ''s1'')"
    "map_option (map msg_type \<circ> messages \<circ> fst)
        (sendMessage_start second_ids ((mount (js ''s1''))\<lparr>inputValue := js ''again''\<rparr>)) =
       Some [User, Assistant]"
    by (simp_all add: page_eval)
  ultimately show ?thesis using start_hello by (intro conjI)
qed

text \<open>
  Claim C10. For every delta that is a string, as the handler declares, the chunk handler
  returns, and it appends the delta to the content of each message whose id is the
  placeholder's. For a delta of any kind the handler throws exactly when the conversion
  of the delta to a string throws and a message with the placeholder's id is in the list;
  when it returns, it keeps the length of the message list, appends the text of the delta
  to the content of each message whose id is the placeholder's, and leaves every other
  message as it is; when the ids in the list are distinct, at most one message changes.
  The other parts of the page are unchanged.
\<close>

theorem onChunk_frame:
  "(\<exists>st'. onChunk a (JStr s) st = Some st'
      \<and> (\<forall>i < length (messages st). msg_id (messages st ! i) = a \<longrightarrow>
            messages st' ! i = (messages st ! i)\<lparr>content := content (messages st ! i) @ s\<rparr>))
   \<and> (onChunk a v st = None) =
        (ToString v = None \<and> (\<exists>msg \<in> set (messages st). msg_id msg = a))
   \<and> (onChunk a v st = Some st' \<longrightarrow>
        length (messages st') = length (messages st)
        \<and> (\<forall>i < length (messages st). msg_id (messages st ! i) = a \<longrightarrow>
              (\<exists>t. ToString v = Some t
                 \<and> messages st' ! i =
                     (messages st ! i)\<lparr>content := content (messages st ! i) @ t\<rparr>))
        \<and> (\<forall>i < length (messages st). msg_id (messages st ! i) \<noteq> a \<longrightarrow>
              messages st' ! i = messages st ! i)
        \<and> (distinct (map msg_id (messages st)) \<longrightarrow>
             (\<forall>i j. i < length (messages st) \<and> j < length (messages st)
                \<and> messages st' ! i \<noteq> messages st ! i
                \<and> messages st' ! j \<noteq> messages st ! j \<longrightarrow> i = j))
        \<and> inputValue st' = inputValue st
        \<and> isLoading st' = isLoading st
        \<and> currentSessionId st' = currentSessionId st
        \<and> errorToasts st' = errorToasts st)"
proof (intro conjI impI)
  show "\<exists>st'. onChunk a (JStr s) st = Some st'
      \<and> (\<forall>i < length (messages st). msg_id (messages st ! i) = a \<longrightarrow>
            messages st' ! i = (messages st ! i)\<lparr>content := content (messages st ! i) @ s\<rparr>)"
    by (simp add: onChunk_def delta_text_def)
next
  show "(onChunk a v st = None) =
        (ToString v = None \<and> (\<exists>msg \<in> set (messages st). msg_id msg = a))"
    by (simp add: onChunk_def)
next
  assume some: "onChunk a v st = Some st'"
  note eq = onChunk_Some [OF some]
  show "length (messages st') = length (messages st)" by (simp add: eq)
  show "inputValue st' = inputValue st" "isLoading st' = isLoading st"
    "currentSessionId st' = currentSessionId st" "errorToasts st' = errorToasts st"
    by (simp_all add: eq)
  show "\<forall>i < length (messages st). msg_id (messages st ! i) \<noteq> a \<longrightarrow>
          messages st' ! i = messages st ! i"
    by (simp add: eq)
  show "\<forall>i < length (messages st). msg_id (messages st ! i) = a \<longrightarrow>
          (\<exists>t. ToString v = Some t
             \<and> messages st' ! i = (messages st ! i)\<lparr>content := content (messages st ! i) @ t\<rparr>)"
  proof (intro allI impI)
    fix i assume i: "i < length (messages st)" and a: "msg_id (messages st ! i) = a"
    then have "\<exists>msg \<in> set (messages st). msg_id msg = a" by (auto intro: nth_mem)
    with some obtain t where t: "ToString v = Some t"
      by (auto simp: onChunk_def split: if_splits)
    with i a show "\<exists>t. ToString v = Some t
        \<and> messages st' ! i = (messages st ! i)\<lparr>content := content (messages st ! i) @ t\<rparr>"
      by (simp add: eq delta_text_def)
  qed
  show "\<forall>i j. i < length (messages st) \<and> j < length (messages st)
            \<and> messages st' ! i \<noteq> messages st ! i
            \<and> messages st' ! j \<noteq> messages st ! j \<longrightarrow> i = j"
    if d: "distinct (map msg_id (messages st))"
  proof (intro allI impI, elim conjE)
    fix i j
    assume i: "i < length (messages st)" and j: "j < length (messages st)"
      and ci: "messages st' ! i \<noteq> messages st ! i"
      and cj: "messages st' ! j \<noteq> messages st ! j"
    from i ci have "msg_id (messages st ! i) = a" by (auto simp: eq split: if_splits)
    moreover from j cj have "msg_id (messages st ! j) = a" by (auto simp: eq split: if_splits)
    ultimately have "map msg_id (messages st) ! i = map msg_id (messages st) ! j"
      using i j by simp
    moreover have "(map msg_id (messages st) ! i = map msg_id (messages st) ! j) = (i = j)"
      using d i j by (intro nth_eq_iff_index_eq) simp_all
    ultimately show "i = j" by (simp only:)
  qed
qed

theorem onChunk_frame_witness:
  "length (messages streaming_page) = 2
   \<and> msg_id (messages streaming_page ! 1) = js ''a1''
   \<and> msg_id (messages streaming_page ! 0) = js ''u1''
   \<and> map_option (\<lambda>p. messages p ! 1) (onChunk (js ''a1'') (JStr (js ''Hi'')) streaming_page) =
       Some ((messages streaming_page ! 1)\<lparr>content := js ''Hi''\<rparr>)
   \<and> map_option (\<lambda>p. messages p ! 0) (onChunk (js ''a1'') (JStr (js ''Hi'')) streaming_page) =
       Some (messages streaming_page ! 0)
   \<and> map_option isLoading (onChunk (js ''a1'') (JStr (js ''Hi'')) streaming_page) = Some True"
proof -
  have l: "length (messages streaming_page) = 2"
    and a: "msg_id (messages streaming_page ! 1) = js ''a1''"
    and u: "msg_id (messages streaming_page ! 0) = js ''u1''"
    and e: "content (messages streaming_page ! 1) = []"
    and b: "isLoading streaming_page"
    by (simp_all add: streaming_page_def)
  have n: "js ''u1'' \<noteq> js ''a1''" by (simp add: js_def)
  from onChunk_frame [of "js ''a1''" "js ''Hi''" streaming_page]
  obtain p where p: "onChunk (js ''a1'') (JStr (js ''Hi'')) streaming_page = Some p"
    by blast
  note f = onChunk_frame [of "js ''a1''" "js ''Hi''" streaming_page "JStr (js ''Hi'')" p]
  from f p l a e
  have x: "messages p ! 1 = (messages streaming_page ! 1)\<lparr>content := js ''Hi''\<rparr>"
    by simp
  from f p l u n have y: "messages p ! 0 = messages streaming_page ! 0"
    by simp
  from f p b have z: "isLoading p" by simp
  from l a u x y z show ?thesis unfolding p by simp
qed

text \<open>
  A delta that is an object with a member named \<^verbatim>\<open>toString\<close>: the updater throws and
  the page is unmounted.
\<close>

lemma page_object_delta:
  "fst (sendMessage fresh_ids stream_object_delta (idle_page (js ''hello''))) = None"
  unfolding sendMessage_def start_hello trace_object_delta
  by (simp add: onChunk_def streaming_page_def fresh_ids_def js_def)

section \<open>Properties of the provider registry\<close>

lemma filter_key_one:
  "distinct (map provider reg) \<Longrightarrow> c \<in> set reg \<Longrightarrow>
     length (filter (\<lambda>x. provider x = provider c) reg) = 1"
proof (induction reg)
  case Nil
  then show ?case by simp
next
  case (Cons x reg)
  show ?case
  proof (cases "provider x = provider c")
    case True
    from Cons.prems(1) have "provider x \<notin> provider ` set reg" by simp
    with True have "\<forall>y \<in> set reg. provider y \<noteq> provider c" by (metis imageI)
    then have "filter (\<lambda>x. provider x = provider c) reg = []" by (simp add: filter_empty_conv)
    with True show ?thesis by simp
  next
    case False
    with Cons show ?thesis by auto
  qed
qed

lemma switch_success:
  assumes "switch supported reg p m = Inr reg'"
  shows "reg' = map (\<lambda>c. if provider c = p then c\<lparr>model := m, is_current := True\<rparr>
                          else c\<lparr>is_current := False\<rparr>) reg"
    and "\<exists>c \<in> set reg. provider c = p \<and> is_configured c"
    and "m \<in> set (supported p)"
  using assms by (auto simp: switch_def split: if_splits)

lemma switch_keys:
  "switch supported reg p m = Inr reg' \<Longrightarrow> map provider reg' = map provider reg"
  by (auto simp: switch_def split: if_splits)

lemma switch_one_current:
  assumes "distinct (map provider reg)" and "switch supported reg p m = Inr reg'"
  shows "current_count reg' = 1"
proof -
  note s = switch_success [OF assms(2)]
  from s(2) obtain c where c: "c \<in> set reg" "provider c = p" by blast
  have "filter is_current reg' =
          map (\<lambda>c. c\<lparr>model := m, is_current := True\<rparr>) (filter (\<lambda>x. provider x = p) reg)"
    unfolding s(1) by (induction reg) auto
  then have "current_count reg' = length (filter (\<lambda>x. provider x = p) reg)"
    by (simp add: current_count_def)
  with filter_key_one [OF assms(1) c(1)] c(2) show ?thesis by simp
qed

lemma switch_again:
  assumes "switch supported reg p m = Inr reg'"
  shows "switch supported reg' p m = Inr reg'"
proof -
  note s = switch_success [OF assms]
  from s(2) obtain c where c: "c \<in> set reg" "provider c = p" "is_configured c" by blast
  then have "c\<lparr>model := m, is_current := True\<rparr> \<in> set reg'"
    unfolding s(1) by force
  with c have "\<exists>c \<in> set reg'. provider c = p \<and> is_configured c"
    by (intro bexI [of _ "c\<lparr>model := m, is_current := True\<rparr>"]) simp_all
  moreover have "map (\<lambda>c. if provider c = p then c\<lparr>model := m, is_current := True\<rparr>
                          else c\<lparr>is_current := False\<rparr>) reg' = reg'"
    unfolding s(1) by (induction reg) auto
  ultimately show ?thesis using s(3) by (simp add: switch_def)
qed

lemma switch_all_one_current:
  "distinct (map provider reg) \<Longrightarrow> current_count reg = 1 \<Longrightarrow>
     current_count (switch_all supported reg calls) = 1"
proof (induction calls arbitrary: reg)
  case Nil
  then show ?case by simp
next
  case (Cons call calls)
  obtain p m where call: "call = (p, m)" by (cases call)
  show ?case
  proof (cases "switch supported reg p m")
    case (Inl err)
    with Cons call show ?thesis by simp
  next
    case (Inr reg')
    from switch_keys [OF Inr] Cons.prems(1) have "distinct (map provider reg')" by simp
    moreover from switch_one_current [OF Cons.prems(1) Inr] have "current_count reg' = 1" .
    ultimately show ?thesis using Cons.IH call Inr by simp
  qed
qed

text \<open>
  Claim C9. In a registry with one configuration per provider key and one current
  provider, a switch that succeeds can be repeated with the same arguments: the second
  call succeeds, gives the same registry, and exactly one configuration is current;
  and after any sequence of switch requests, failed ones included, exactly one
  configuration is current.
\<close>

theorem switch_idempotent:
  assumes "distinct (map provider reg)" and "current_count reg = 1"
  shows "(switch supported reg p m = Inr reg' \<longrightarrow>
            switch supported reg' p m = Inr reg' \<and> current_count reg' = 1)
         \<and> current_count (switch_all supported reg calls) = 1"
  using assms switch_again switch_one_current switch_all_one_current by blast

theorem switch_idempotent_witness:
  "distinct (map provider two_providers) \<and> current_count two_providers = 1
   \<and> switch supported_models two_providers (js ''deepseek'') (js ''deepseek-chat'') =
       Inr deepseek_current
   \<and> switch supported_models deepseek_current (js ''deepseek'') (js ''deepseek-chat'') =
       Inr deepseek_current
   \<and> current_count deepseek_current = 1
   \<and> current_count (switch_all supported_models two_providers
        [(js ''deepseek'', js ''deepseek-chat''), (js ''zhipu'', js ''glm-4''),
         (js ''deepseek'', js ''deepseek-chat'')]) = 1"
proof -
  have d: "distinct (map provider two_providers)" 
    by (simp add: registry_eval)
  have c: "current_count two_providers = 1" 
    by (simp add: registry_eval)
  have s: "switch supported_models two_providers (js ''deepseek'') (js ''deepseek-chat'') =
       Inr deepseek_current" 
    by (simp add: registry_eval)
  note t = switch_idempotent [OF d c, where supported = supported_models
      and p = "js ''deepseek''" and m = "js ''deepseek-chat''" and reg' = deepseek_current
      and calls = "[(js ''deepseek'', js ''deepseek-chat''), (js ''zhipu'', js ''glm-4''),
         (js ''deepseek'', js ''deepseek-chat'')]"]
  from t s
  have x: "switch supported_models deepseek_current (js ''deepseek'') (js ''deepseek-chat'') =
       Inr deepseek_current" and y: "current_count deepseek_current = 1"
    by blast+
  from t
  have z: "current_count (switch_all supported_models two_providers
        [(js ''deepseek'', js ''deepseek-chat''), (js ''zhipu'', js ''glm-4''),
         (js ''deepseek'', js ''deepseek-chat'')]) = 1"
    by (rule conjunct2)
  from d c s x y z show ?thesis by (intro conjI)
qed

end
